theory Spec2Isabelle
  imports Main "HOL-Library.Word" "HOL-Library.Multiset"
begin

section \<open>Data model (models/types)\<close>

text \<open>
  JavaScript numbers are modelled as \<open>int\<close> (indices and counts as \<open>nat\<close>): the engine is
  only ever fed whole numbers, and fractions, NaN and the loss of precision beyond \<open>2^53\<close>
  are outside this model. Strings are lists of 8-bit characters, read as the code points
  U+0000 to U+00FF.
\<close>

datatype Ability = strength | dexterity | constitution | intelligence | wisdom | charisma

datatype RestType = short | long

datatype ConditionType =
    blinded | charmed | deafened | exhaustion | frightened | grappled | incapacitated
  | invisible | paralyzed | petrified | poisoned | prone | restrained | stunned
  | unconscious | concentrating

datatype DurationKind = rounds | untilSave | untilDispelled | untilRest

text \<open>\<^verbatim>\<open>interface DurationType { type; value?; ability?; restType? }\<close>: an optional field
  that is absent (\<^verbatim>\<open>undefined\<close>) is \<open>None\<close>.\<close>

record DurationType =
  dtype :: DurationKind
  dvalue :: "int option"
  dability :: "Ability option"
  drestType :: "RestType option"

record ActiveCondition =
  cond_name :: ConditionType
  cond_source :: string
  duration :: DurationType

datatype CombatantType = player_character | enemy | ally | neutral

datatype CombatantStatus = active | defeated | fled

record TurnResources =
  hasAction :: bool
  hasBonusAction :: bool
  hasReaction :: bool
  movementRemaining :: int

record Initiative =
  init_roll :: int
  init_modifier :: int
  init_total :: int

record Combatant =
  cid :: string
  cname :: string
  ctype :: CombatantType
  initiative :: Initiative
  currentHp :: int
  maxHp :: int
  tempHp :: int
  armorClass :: int
  speed :: int
  conditions :: "ActiveCondition list"
  status :: CombatantStatus
  position :: "(int \<times> int) option"
  turnResources :: TurnResources
  sourceId :: "string option"
  isPlayer :: bool

record Combat =
  combat_id :: string
  round :: int
  initiativeOrder :: "Combatant list"
  currentTurnIndex :: nat
  surprisedCombatantIds :: "string list"
  environmentalEffects :: "string list"
  isActive :: bool

text \<open>The snapshots handed in by the caller. Only the fields the engine reads are kept;
  the descriptive ones (race, class, inventory, actions, ...) play no part in any
  operation. What tells a character from a monster in the source
  (\<^verbatim>\<open>'characterClass' in source\<close>) is the constructor of \<open>Source\<close> here.\<close>

record AbilityScores =
  score_strength :: int
  score_dexterity :: int
  score_constitution :: int
  score_intelligence :: int
  score_wisdom :: int
  score_charisma :: int

record Character =
  char_id :: string
  char_name :: string
  char_abilityScores :: AbilityScores
  char_maxHp :: int
  char_currentHp :: int
  char_tempHp :: int
  char_armorClass :: int
  char_speed :: int
  char_conditions :: "ActiveCondition list"

record MonsterStatBlock =
  mon_name :: string
  mon_armorClass :: int
  mon_hitPoints :: int
  mon_speed_walk :: int
  mon_abilityScores :: AbilityScores

datatype Source = FromCharacter Character | FromMonster MonsterStatBlock

record InitiativeResult =
  res_combatantId :: string
  res_combatantName :: string
  res_roll :: int
  res_modifier :: int
  res_total :: int

text \<open>The values \<^verbatim>\<open>parseInt\<close> can return: a double that holds an integer, an infinity,
  or \<^verbatim>\<open>NaN\<close>. The two zeros of the doubles are one value here (\<^verbatim>\<open>-0 === 0\<close>).\<close>

datatype number = Finite int | Infinity | NegInfinity | NaN

datatype error =
    CombatantNotFound string
  | InvalidNotation string
  | InvalidDiceCount number
  | InvalidDiceSides number
  | TypeError string

section \<open>Array helpers\<close>

text \<open>\<^verbatim>\<open>Array.prototype.findIndex\<close>: the first index whose element satisfies the predicate;
  JavaScript's \<^verbatim>\<open>-1\<close> is \<open>None\<close>.\<close>

fun findIndex :: "('a \<Rightarrow> bool) \<Rightarrow> 'a list \<Rightarrow> nat option" where
  "findIndex P [] = None"
| "findIndex P (x # xs) =
     (if P x then Some 0 else (case findIndex P xs of None \<Rightarrow> None | Some i \<Rightarrow> Some (Suc i)))"

section \<open>Combat engine: combatants from snapshots\<close>

definition createDefaultTurnResources :: "int \<Rightarrow> TurnResources" where
  "createDefaultTurnResources spd =
     \<lparr>hasAction = True, hasBonusAction = True, hasReaction = True, movementRemaining = spd\<rparr>"

definition getAbilityModifier :: "int \<Rightarrow> int" where
  "getAbilityModifier score = (score - 10) div 2"

definition createCombatantFromCharacter :: "Character \<Rightarrow> InitiativeResult \<Rightarrow> Combatant" where
  "createCombatantFromCharacter character ini =
     \<lparr>cid = char_id character,
      cname = char_name character,
      ctype = player_character,
      initiative = \<lparr>init_roll = res_roll ini, init_modifier = res_modifier ini,
                     init_total = res_total ini\<rparr>,
      currentHp = char_currentHp character,
      maxHp = char_maxHp character,
      tempHp = char_tempHp character,
      armorClass = char_armorClass character,
      speed = char_speed character,
      conditions = char_conditions character,
      status = (if char_currentHp character > 0 then active else defeated),
      position = None,
      turnResources = createDefaultTurnResources (char_speed character),
      sourceId = Some (char_id character),
      isPlayer = True\<rparr>"

text \<open>JavaScript's \<^verbatim>\<open>\s\<close> and \<^verbatim>\<open>toLowerCase\<close> on the code points U+0000 to U+00FF.\<close>

definition isSpace :: "char \<Rightarrow> bool" where
  "isSpace c = ((of_char c :: nat) \<in> {9, 10, 11, 12, 13, 32, 160})"

definition toLowerChar :: "char \<Rightarrow> char" where
  "toLowerChar c =
     (let n = (of_char c :: nat)
      in if (65 \<le> n \<and> n \<le> 90) \<or> (192 \<le> n \<and> n \<le> 222 \<and> n \<noteq> 215)
         then char_of (n + 32) else c)"

definition toLowerCase :: "string \<Rightarrow> string" where
  "toLowerCase s = map toLowerChar s"

text \<open>\<^verbatim>\<open>.replace(/\s+/g, '_')\<close>: every maximal run of whitespace becomes one underscore.
  The flag says whether the character before was whitespace.\<close>

fun replaceSpaceRuns :: "bool \<Rightarrow> string \<Rightarrow> string" where
  "replaceSpaceRuns inRun [] = []"
| "replaceSpaceRuns inRun (c # cs) =
     (if isSpace c
      then (if inRun then replaceSpaceRuns True cs else CHR ''_'' # replaceSpaceRuns True cs)
      else c # replaceSpaceRuns False cs)"

definition slug :: "string \<Rightarrow> string" where
  "slug name = replaceSpaceRuns False (toLowerCase name)"

text \<open>\<^verbatim>\<open>createCombatantFromMonster(monster, initiative, type, instanceId?)\<close>. An absent or
  empty \<open>instanceId\<close> is falsy; \<open>uuid\<close> is the string \<^verbatim>\<open>uuidv4()\<close> returns when it is
  called for the fallback id.\<close>

definition createCombatantFromMonster ::
  "MonsterStatBlock \<Rightarrow> InitiativeResult \<Rightarrow> CombatantType \<Rightarrow> string option \<Rightarrow> string \<Rightarrow> Combatant" where
  "createCombatantFromMonster monster ini type instanceId uuid =
     (let id = (case instanceId of
                  Some i \<Rightarrow> if i \<noteq> [] then i else slug (mon_name monster) @ ''_'' @ take 8 uuid
                | None \<Rightarrow> slug (mon_name monster) @ ''_'' @ take 8 uuid);
          dexMod = getAbilityModifier (score_dexterity (mon_abilityScores monster))
      in \<lparr>cid = id,
          cname = mon_name monster,
          ctype = type,
          initiative = \<lparr>init_roll = res_roll ini, init_modifier = dexMod,
                         init_total = res_total ini\<rparr>,
          currentHp = mon_hitPoints monster,
          maxHp = mon_hitPoints monster,
          tempHp = 0,
          armorClass = mon_armorClass monster,
          speed = mon_speed_walk monster,
          conditions = [],
          status = active,
          position = None,
          turnResources = createDefaultTurnResources (mon_speed_walk monster),
          sourceId = Some (mon_name monster),
          isPlayer = False\<rparr>)"

section \<open>Combat engine: damage and healing\<close>

record DamageResult =
  dmg_combat :: Combat
  actualDamage :: int
  wasKnockedOut :: bool
  wasDowned :: bool

text \<open>\<^verbatim>\<open>applyDamage(combat, targetId, amount, damageType, source)\<close> and
  \<^verbatim>\<open>applyHealing(combat, targetId, amount, source)\<close> never read the damage type or the
  source text, which are left out. A thrown \<^verbatim>\<open>Error\<close> is \<open>Inl\<close>.\<close>

text \<open>The temporary-HP block of \<^verbatim>\<open>applyDamage\<close>: from the clamped amount and the target's
  temporary HP it gives (remainingDamage, actualDamage, newTempHp) as they stand before the
  regular HP is touched.\<close>

definition depleteTempHp :: "int \<Rightarrow> int \<Rightarrow> int \<times> int \<times> int" where
  "depleteTempHp remainingDamage newTempHp =
     (if newTempHp > 0 then
        (if remainingDamage \<ge> newTempHp
         then (remainingDamage - newTempHp, newTempHp, 0)
         else (0, remainingDamage, newTempHp - remainingDamage))
      else (remainingDamage, 0, newTempHp))"

definition applyDamage :: "Combat \<Rightarrow> string \<Rightarrow> int \<Rightarrow> error + DamageResult" where
  "applyDamage combat targetId amount =
     (case findIndex (\<lambda>c. cid c = targetId) (initiativeOrder combat) of
        None \<Rightarrow> Inl (CombatantNotFound targetId)
      | Some targetIndex \<Rightarrow>
          (let target = initiativeOrder combat ! targetIndex;
               (remainingDamage, tempAbsorbed, newTempHp) =
                  depleteTempHp (max 0 amount) (tempHp target);
               actualDamage = tempAbsorbed + remainingDamage;
               newCurrentHp = max 0 (currentHp target - remainingDamage);
               wasKnockedOut = (currentHp target > 0 \<and> newCurrentHp = 0);
               wasDowned = (wasKnockedOut \<and> isPlayer target);
               newStatus = (if newCurrentHp = 0
                            then (if isPlayer target then active else defeated)
                            else status target);
               newConditions = (if wasDowned
                  then conditions target @
                    [\<lparr>cond_name = unconscious, cond_source = ''damage'',
                      duration = \<lparr>dtype = untilDispelled, dvalue = None,
                                   dability = None, drestType = None\<rparr>\<rparr>]
                  else conditions target);
               updatedOrder = (initiativeOrder combat)[targetIndex :=
                  target\<lparr>currentHp := newCurrentHp, tempHp := newTempHp,
                         status := newStatus, conditions := newConditions\<rparr>]
           in Inr \<lparr>dmg_combat = combat\<lparr>initiativeOrder := updatedOrder\<rparr>,
                    actualDamage = actualDamage,
                    wasKnockedOut = wasKnockedOut,
                    wasDowned = wasDowned\<rparr>))"

record HealingResult =
  heal_combat :: Combat
  actualHealing :: int
  wasRevived :: bool

definition applyHealing :: "Combat \<Rightarrow> string \<Rightarrow> int \<Rightarrow> error + HealingResult" where
  "applyHealing combat targetId amount =
     (case findIndex (\<lambda>c. cid c = targetId) (initiativeOrder combat) of
        None \<Rightarrow> Inl (CombatantNotFound targetId)
      | Some targetIndex \<Rightarrow>
          (let target = initiativeOrder combat ! targetIndex;
               wasAtZero = (currentHp target = 0);
               newCurrentHp = min (maxHp target) (currentHp target + amount);
               actualHealing = newCurrentHp - currentHp target;
               newConditions = (if wasAtZero \<and> newCurrentHp > 0
                  then filter (\<lambda>c. cond_name c \<noteq> unconscious) (conditions target)
                  else conditions target);
               updatedOrder = (initiativeOrder combat)[targetIndex :=
                  target\<lparr>currentHp := newCurrentHp, conditions := newConditions,
                         status := (if newCurrentHp > 0 then active else status target)\<rparr>]
           in Inr \<lparr>heal_combat = combat\<lparr>initiativeOrder := updatedOrder\<rparr>,
                    actualHealing = actualHealing,
                    wasRevived = (wasAtZero \<and> newCurrentHp > 0)\<rparr>))"

section \<open>Combat engine: conditions, resources, lifecycle\<close>

text \<open>\<^verbatim>\<open>existing.duration.value || 0\<close>: an absent value, and 0 itself, read as 0.\<close>

definition valueOrZero :: "int option \<Rightarrow> int" where
  "valueOrZero v = (case v of None \<Rightarrow> 0 | Some n \<Rightarrow> n)"

text \<open>\<^verbatim>\<open>condition.duration.value! > (existing.duration.value || 0)\<close>: a comparison with
  \<^verbatim>\<open>undefined\<close> on the left is false.\<close>

definition longerThan :: "int option \<Rightarrow> int option \<Rightarrow> bool" where
  "longerThan new old = (case new of None \<Rightarrow> False | Some n \<Rightarrow> n > valueOrZero old)"

definition addCondition :: "Combat \<Rightarrow> string \<Rightarrow> ActiveCondition \<Rightarrow> error + Combat" where
  "addCondition combat targetId condition =
     (case findIndex (\<lambda>c. cid c = targetId) (initiativeOrder combat) of
        None \<Rightarrow> Inl (CombatantNotFound targetId)
      | Some targetIndex \<Rightarrow>
          (let target = initiativeOrder combat ! targetIndex in
           case findIndex (\<lambda>c. cond_name c = cond_name condition) (conditions target) of
             Some existingIndex \<Rightarrow>
               (let existing = conditions target ! existingIndex in
                if dtype (duration condition) = rounds \<and> dtype (duration existing) = rounds
                   \<and> longerThan (dvalue (duration condition)) (dvalue (duration existing))
                then Inr (combat\<lparr>initiativeOrder := (initiativeOrder combat)[targetIndex :=
                       target\<lparr>conditions := (conditions target)[existingIndex := condition]\<rparr>]\<rparr>)
                else Inr combat)
           | None \<Rightarrow>
               Inr (combat\<lparr>initiativeOrder := (initiativeOrder combat)[targetIndex :=
                      target\<lparr>conditions := conditions target @ [condition]\<rparr>]\<rparr>)))"

definition removeCondition :: "Combat \<Rightarrow> string \<Rightarrow> ConditionType \<Rightarrow> error + Combat" where
  "removeCondition combat targetId conditionName =
     (case findIndex (\<lambda>c. cid c = targetId) (initiativeOrder combat) of
        None \<Rightarrow> Inl (CombatantNotFound targetId)
      | Some targetIndex \<Rightarrow>
          (let target = initiativeOrder combat ! targetIndex;
               updatedConditions = filter (\<lambda>c. cond_name c \<noteq> conditionName) (conditions target)
           in Inr (combat\<lparr>initiativeOrder := (initiativeOrder combat)[targetIndex :=
                     target\<lparr>conditions := updatedConditions\<rparr>]\<rparr>)))"

definition useAction :: "Combat \<Rightarrow> string \<Rightarrow> Combat" where
  "useAction combat combatantId =
     (case findIndex (\<lambda>c. cid c = combatantId) (initiativeOrder combat) of
        None \<Rightarrow> combat
      | Some index \<Rightarrow>
          (let c = initiativeOrder combat ! index in
           combat\<lparr>initiativeOrder := (initiativeOrder combat)[index :=
             c\<lparr>turnResources := (turnResources c)\<lparr>hasAction := False\<rparr>\<rparr>]\<rparr>))"

definition useBonusAction :: "Combat \<Rightarrow> string \<Rightarrow> Combat" where
  "useBonusAction combat combatantId =
     (case findIndex (\<lambda>c. cid c = combatantId) (initiativeOrder combat) of
        None \<Rightarrow> combat
      | Some index \<Rightarrow>
          (let c = initiativeOrder combat ! index in
           combat\<lparr>initiativeOrder := (initiativeOrder combat)[index :=
             c\<lparr>turnResources := (turnResources c)\<lparr>hasBonusAction := False\<rparr>\<rparr>]\<rparr>))"

definition useReaction :: "Combat \<Rightarrow> string \<Rightarrow> Combat" where
  "useReaction combat combatantId =
     (case findIndex (\<lambda>c. cid c = combatantId) (initiativeOrder combat) of
        None \<Rightarrow> combat
      | Some index \<Rightarrow>
          (let c = initiativeOrder combat ! index in
           combat\<lparr>initiativeOrder := (initiativeOrder combat)[index :=
             c\<lparr>turnResources := (turnResources c)\<lparr>hasReaction := False\<rparr>\<rparr>]\<rparr>))"

definition useMovement :: "Combat \<Rightarrow> string \<Rightarrow> int \<Rightarrow> Combat" where
  "useMovement combat combatantId amount =
     (case findIndex (\<lambda>c. cid c = combatantId) (initiativeOrder combat) of
        None \<Rightarrow> combat
      | Some index \<Rightarrow>
          (let combatant = initiativeOrder combat ! index;
               newRemaining = max 0 (movementRemaining (turnResources combatant) - amount)
           in combat\<lparr>initiativeOrder := (initiativeOrder combat)[index :=
                combatant\<lparr>turnResources :=
                  (turnResources combatant)\<lparr>movementRemaining := newRemaining\<rparr>\<rparr>]\<rparr>))"

definition flee :: "Combat \<Rightarrow> string \<Rightarrow> Combat" where
  "flee combat combatantId =
     (case findIndex (\<lambda>c. cid c = combatantId) (initiativeOrder combat) of
        None \<Rightarrow> combat
      | Some index \<Rightarrow>
          combat\<lparr>initiativeOrder := (initiativeOrder combat)[index :=
            (initiativeOrder combat ! index)\<lparr>status := fled\<rparr>]\<rparr>)"

definition addTempHp :: "Combat \<Rightarrow> string \<Rightarrow> int \<Rightarrow> Combat" where
  "addTempHp combat targetId amount =
     (case findIndex (\<lambda>c. cid c = targetId) (initiativeOrder combat) of
        None \<Rightarrow> combat
      | Some index \<Rightarrow>
          (let combatant = initiativeOrder combat ! index;
               newTempHp = max (tempHp combatant) amount
           in combat\<lparr>initiativeOrder := (initiativeOrder combat)[index :=
                combatant\<lparr>tempHp := newTempHp\<rparr>]\<rparr>))"

definition addEnvironmentalEffect :: "Combat \<Rightarrow> string \<Rightarrow> Combat" where
  "addEnvironmentalEffect combat effect =
     combat\<lparr>environmentalEffects := environmentalEffects combat @ [effect]\<rparr>"

definition removeEnvironmentalEffect :: "Combat \<Rightarrow> string \<Rightarrow> Combat" where
  "removeEnvironmentalEffect combat effect =
     combat\<lparr>environmentalEffects := filter (\<lambda>e. e \<noteq> effect) (environmentalEffects combat)\<rparr>"

record EndResult =
  end_combat :: Combat
  xpEarned :: int
  survivingPlayers :: "string list"

definition endCombat :: "Combat \<Rightarrow> EndResult" where
  "endCombat combat =
     (let defeatedEnemies =
            filter (\<lambda>c. ctype c = enemy \<and> status c = defeated) (initiativeOrder combat);
          xpEarned = int (length defeatedEnemies) * 50;
          survivingPlayers =
            map cid (filter (\<lambda>c. isPlayer c \<and> status c = active) (initiativeOrder combat))
      in \<lparr>end_combat = combat\<lparr>isActive := False\<rparr>,
          xpEarned = xpEarned,
          survivingPlayers = survivingPlayers\<rparr>)"

section \<open>Combat engine: turns and rounds\<close>

text \<open>\<^verbatim>\<open>getCurrentCombatant\<close>: \<^verbatim>\<open>null\<close> is \<open>None\<close>; so is the \<^verbatim>\<open>undefined\<close> that an index
  beyond the array would read.\<close>

definition getCurrentCombatant :: "Combat \<Rightarrow> Combatant option" where
  "getCurrentCombatant combat =
     (if \<not> isActive combat \<or> length (initiativeOrder combat) = 0 then None
      else if currentTurnIndex combat < length (initiativeOrder combat)
           then Some (initiativeOrder combat ! currentTurnIndex combat)
           else None)"

text \<open>The two callbacks of \<^verbatim>\<open>processEndOfRound\<close>. A value is truthy when it is present
  and not 0.\<close>

definition tickCondition :: "ActiveCondition \<Rightarrow> ActiveCondition" where
  "tickCondition condition =
     (case dvalue (duration condition) of
        Some v \<Rightarrow>
          (if dtype (duration condition) = rounds \<and> v \<noteq> 0
           then condition\<lparr>duration := (duration condition)\<lparr>dvalue := Some (v - 1)\<rparr>\<rparr>
           else condition)
      | None \<Rightarrow> condition)"

definition keepCondition :: "ActiveCondition \<Rightarrow> bool" where
  "keepCondition condition =
     (dtype (duration condition) \<noteq> rounds \<or>
      (case dvalue (duration condition) of None \<Rightarrow> False | Some v \<Rightarrow> v \<noteq> 0 \<and> v > 0))"

definition processEndOfRound :: "Combat \<Rightarrow> Combat" where
  "processEndOfRound combat =
     (let updatedOrder = map (\<lambda>combatant.
            combatant\<lparr>conditions := filter keepCondition (map tickCondition (conditions combatant))\<rparr>)
            (initiativeOrder combat)
      in combat\<lparr>round := round combat + 1, initiativeOrder := updatedOrder\<rparr>)"

text \<open>The \<^verbatim>\<open>do ... while\<close> loop of \<^verbatim>\<open>nextTurn\<close>. \<open>len\<close> is
  \<^verbatim>\<open>combat.initiativeOrder.length\<close>, which is also \<^verbatim>\<open>maxIterations\<close>; the loop state is
  (nextIndex, iterations, newRound, updatedCombat). It is entered with \<open>len > 0\<close> only.\<close>

function findNextActive :: "nat \<Rightarrow> nat \<Rightarrow> nat \<Rightarrow> int \<Rightarrow> Combat \<Rightarrow> nat \<times> nat \<times> int \<times> Combat" where
  "findNextActive len nextIndex iterations newRound updatedCombat =
     (let nextIndex' = (nextIndex + 1) mod len;
          iterations' = iterations + 1;
          updatedCombat' = (if nextIndex' = 0 then processEndOfRound updatedCombat
                            else updatedCombat);
          newRound' = (if nextIndex' = 0 then round updatedCombat' else newRound)
      in if status (initiativeOrder updatedCombat' ! nextIndex') \<noteq> active \<and> iterations' < len
         then findNextActive len nextIndex' iterations' newRound' updatedCombat'
         else (nextIndex', iterations', newRound', updatedCombat'))"
  by pat_completeness auto
termination
  by (relation "measure (\<lambda>(len, nextIndex, iterations, newRound, updatedCombat). len - iterations)")
     auto

text \<open>The body of \<^verbatim>\<open>nextTurn\<close> after the two early returns: the combat with the turn moved
  on and the landed combatant's resources reset, and whether that combatant is surprised.\<close>

definition advanceTurn :: "Combat \<Rightarrow> bool \<times> Combat" where
  "advanceTurn combat =
     (let (nextIndex, iterations, newRound, updatedCombat) =
            findNextActive (length (initiativeOrder combat)) (currentTurnIndex combat) 0
              (round combat) combat;
          currentCombatant = initiativeOrder updatedCombat ! nextIndex;
          updatedOrder = (initiativeOrder updatedCombat)[nextIndex :=
            currentCombatant\<lparr>turnResources :=
              createDefaultTurnResources (speed currentCombatant)\<rparr>];
          isSurprised = (newRound = 1 \<and>
            cid currentCombatant \<in> set (surprisedCombatantIds updatedCombat))
      in (isSurprised,
          updatedCombat\<lparr>round := newRound, currentTurnIndex := nextIndex,
                        initiativeOrder := updatedOrder\<rparr>))"

section \<open>Facts about array lookup\<close>

lemma findIndex_Some_lt: "findIndex P xs = Some i \<Longrightarrow> i < length xs"
  by (induction xs arbitrary: i) (auto split: if_splits option.splits)

lemma findIndex_Some_sat: "findIndex P xs = Some i \<Longrightarrow> P (xs ! i)"
  by (induction xs arbitrary: i) (auto split: if_splits option.splits)

lemma findIndex_None_iff: "findIndex P xs = None \<longleftrightarrow> (\<forall>x \<in> set xs. \<not> P x)"
  by (induction xs) (auto split: option.splits)

lemma findIndex_present: "\<exists>x \<in> set xs. P x \<Longrightarrow> \<exists>i. findIndex P xs = Some i"
  using findIndex_None_iff [of P xs] by (cases "findIndex P xs") auto

section \<open>The turn loop ends\<close>

lemma processEndOfRound_simps [simp]:
  "round (processEndOfRound c) = round c + 1"
  "length (initiativeOrder (processEndOfRound c)) = length (initiativeOrder c)"
  "map cid (initiativeOrder (processEndOfRound c)) = map cid (initiativeOrder c)"
  "map status (initiativeOrder (processEndOfRound c)) = map status (initiativeOrder c)"
  "surprisedCombatantIds (processEndOfRound c) = surprisedCombatantIds c"
  "isActive (processEndOfRound c) = isActive c"
  "currentTurnIndex (processEndOfRound c) = currentTurnIndex c"
  "environmentalEffects (processEndOfRound c) = environmentalEffects c"
  by (simp_all add: processEndOfRound_def Let_def comp_def)

lemma processEndOfRound_nth:
  "i < length (initiativeOrder c) \<Longrightarrow>
   initiativeOrder (processEndOfRound c) ! i =
     (initiativeOrder c ! i)\<lparr>conditions :=
        filter keepCondition (map tickCondition (conditions (initiativeOrder c ! i)))\<rparr>"
  by (simp add: processEndOfRound_def Let_def)

declare findNextActive.simps [simp del]

lemma findNextActive_props:
  assumes "findNextActive len i it nr uc = (j, it', nr', uc')"
    and "0 < len" and "nr = round uc"
  shows "nr' = round uc' \<and> j < len \<and> round uc \<le> round uc'
    \<and> length (initiativeOrder uc') = length (initiativeOrder uc)
    \<and> map cid (initiativeOrder uc') = map cid (initiativeOrder uc)
    \<and> map status (initiativeOrder uc') = map status (initiativeOrder uc)
    \<and> surprisedCombatantIds uc' = surprisedCombatantIds uc
    \<and> isActive uc' = isActive uc
    \<and> (round uc' = round uc \<and> i < len \<longrightarrow> i < j)"
  using assms
proof (induction len i it nr uc rule: findNextActive.induct)
  case (1 len nextIndex iterations newRound updatedCombat)
  let ?i' = "(nextIndex + 1) mod len"
  let ?uc' = "if ?i' = 0 then processEndOfRound updatedCombat else updatedCombat"
  let ?nr' = "if ?i' = 0 then round ?uc' else newRound"
  let ?C = "status (initiativeOrder ?uc' ! ?i') \<noteq> active \<and> iterations + 1 < len"
  have unf: "findNextActive len nextIndex iterations newRound updatedCombat =
      (if ?C then findNextActive len ?i' (iterations + 1) ?nr' ?uc'
       else (?i', iterations + 1, ?nr', ?uc'))"
    by (subst findNextActive.simps) (simp only: Let_def)
  have nr: "?nr' = round ?uc'" using "1.prems" by simp
  have lt: "?i' < len" using "1.prems" by simp
  have step: "?i' \<noteq> 0 \<Longrightarrow> nextIndex < len \<Longrightarrow> nextIndex < ?i'"
    by (metis Suc_eq_plus1 Suc_lessI lessI mod_less mod_self)
  show ?case
  proof (cases ?C)
    case True
    have eq: "findNextActive len ?i' (iterations + 1) ?nr' ?uc' = (j, it', nr', uc')"
      by (rule trans [OF trans [OF unf if_P [OF True], symmetric] "1.prems"(1)])
    have IH: "nr' = round uc' \<and> j < len \<and> round ?uc' \<le> round uc'
      \<and> length (initiativeOrder uc') = length (initiativeOrder ?uc')
      \<and> map cid (initiativeOrder uc') = map cid (initiativeOrder ?uc')
      \<and> map status (initiativeOrder uc') = map status (initiativeOrder ?uc')
      \<and> surprisedCombatantIds uc' = surprisedCombatantIds ?uc'
      \<and> isActive uc' = isActive ?uc'
      \<and> (round uc' = round ?uc' \<and> ?i' < len \<longrightarrow> ?i' < j)"
      using "1.IH" [OF refl refl refl refl True eq "1.prems"(2) nr] .
    show ?thesis
    proof (cases "?i' = 0")
      case z: True
      with IH show ?thesis by simp
    next
      case nz: False
      with IH step lt show ?thesis by auto
    qed
  next
    case False
    have eq: "(j, it', nr', uc') = (?i', iterations + 1, ?nr', ?uc')"
      by (rule trans [OF "1.prems"(1) [symmetric] trans [OF unf if_not_P [OF False]]])
    show ?thesis
    proof (cases "?i' = 0")
      case z: True
      with eq lt "1.prems" show ?thesis by simp
    next
      case nz: False
      with eq lt step "1.prems" show ?thesis by auto
    qed
  qed
qed


lemma advanceTurn_props:
  assumes "advanceTurn c = (s, c')" and "initiativeOrder c \<noteq> []"
  shows "length (initiativeOrder c') = length (initiativeOrder c)
    \<and> currentTurnIndex c' < length (initiativeOrder c)
    \<and> round c \<le> round c'
    \<and> (round c' = round c \<and> currentTurnIndex c < length (initiativeOrder c)
          \<longrightarrow> currentTurnIndex c < currentTurnIndex c')
    \<and> map cid (initiativeOrder c') = map cid (initiativeOrder c)
    \<and> map status (initiativeOrder c') = map status (initiativeOrder c)
    \<and> surprisedCombatantIds c' = surprisedCombatantIds c
    \<and> isActive c' = isActive c
    \<and> (s \<longleftrightarrow> round c' = 1 \<and>
          cid (initiativeOrder c' ! currentTurnIndex c') \<in> set (surprisedCombatantIds c'))"
proof -
  obtain j it' nr' uc' where
    f: "findNextActive (length (initiativeOrder c)) (currentTurnIndex c) 0 (round c) c
          = (j, it', nr', uc')"
    by (metis prod_cases4)
  have len: "0 < length (initiativeOrder c)" using assms(2) by simp
  note P = findNextActive_props [OF f len refl]
  have c': "c' = uc'\<lparr>round := nr', currentTurnIndex := j,
        initiativeOrder := (initiativeOrder uc')[j :=
          (initiativeOrder uc' ! j)\<lparr>turnResources :=
             createDefaultTurnResources (speed (initiativeOrder uc' ! j))\<rparr>]\<rparr>"
    and s: "s = (nr' = 1 \<and> cid (initiativeOrder uc' ! j) \<in> set (surprisedCombatantIds uc'))"
    using assms(1) by (simp_all add: advanceTurn_def f Let_def)
  have j: "j < length (initiativeOrder uc')" using P by simp
  have m1: "map cid (initiativeOrder c') = map cid (initiativeOrder uc')"
    using j by (simp add: c' map_update list_update_same_conv)
  have m2: "map status (initiativeOrder c') = map status (initiativeOrder uc')"
    using j by (simp add: c' map_update list_update_same_conv)
  have n: "cid (initiativeOrder c' ! currentTurnIndex c') = cid (initiativeOrder uc' ! j)"
    using j by (simp add: c')
  show ?thesis using P m1 m2 n s by (simp add: c')
qed

text \<open>\<^verbatim>\<open>nextTurn\<close> calls itself to skip a surprised combatant. That call is only made with
  the round at 1; from there the turn index grows with every further call until it wraps to
  0, and the wrap takes the round to 2. \<open>turnMeasure\<close> is the bound on the calls still to
  come.\<close>

definition turnMeasure :: "Combat \<Rightarrow> nat" where
  "turnMeasure c =
     (if round c = 1
      then (if currentTurnIndex c < length (initiativeOrder c)
            then length (initiativeOrder c) - currentTurnIndex c
            else length (initiativeOrder c) + 1)
      else length (initiativeOrder c) + 2)"

function nextTurn :: "Combat \<Rightarrow> Combat" where
  "nextTurn combat =
     (if \<not> isActive combat then combat
      else if length (filter (\<lambda>c. status c = active) (initiativeOrder combat)) = 0
      then combat\<lparr>isActive := False\<rparr>
      else (case advanceTurn combat of
              (isSurprised, advanced) \<Rightarrow>
                if isSurprised then nextTurn advanced else advanced))"
  by pat_completeness auto
termination
proof (relation "measure turnMeasure")
  show "wf (measure turnMeasure)" by simp
next
  fix combat :: Combat and s c'
  assume a: "length (filter (\<lambda>c. status c = active) (initiativeOrder combat)) \<noteq> 0"
    and e: "(s, c') = advanceTurn combat" and s: s
  have ne: "initiativeOrder combat \<noteq> []" using a by auto
  note P = advanceTurn_props [OF e [symmetric] ne]
  from P s have r1: "round c' = 1" by simp
  show "(c', combat) \<in> measure turnMeasure"
    using P r1 by (auto simp: turnMeasure_def split: if_splits)
qed

section \<open>The operations of the combat state machine\<close>

text \<open>Every operation of \<^verbatim>\<open>CombatEngine\<close> that takes a combat and returns one, as a value, so
  that statements about ``every operation'' and about sequences of operations can be made.
  The damage type, the source text and the outcome are parameters the code never reads.\<close>

datatype CombatOp =
    NextTurn
  | ProcessEndOfRound
  | ApplyDamage string int
  | ApplyHealing string int
  | AddCondition string ActiveCondition
  | RemoveCondition string ConditionType
  | UseAction string
  | UseBonusAction string
  | UseReaction string
  | UseMovement string int
  | Flee string
  | AddTempHp string int
  | AddEnvironmentalEffect string
  | RemoveEnvironmentalEffect string
  | EndCombat

fun applyOp :: "CombatOp \<Rightarrow> Combat \<Rightarrow> error + Combat" where
  "applyOp NextTurn c = Inr (nextTurn c)"
| "applyOp ProcessEndOfRound c = Inr (processEndOfRound c)"
| "applyOp (ApplyDamage targetId amount) c = map_sum id dmg_combat (applyDamage c targetId amount)"
| "applyOp (ApplyHealing targetId amount) c = map_sum id heal_combat (applyHealing c targetId amount)"
| "applyOp (AddCondition targetId condition) c = addCondition c targetId condition"
| "applyOp (RemoveCondition targetId conditionName) c = removeCondition c targetId conditionName"
| "applyOp (UseAction i) c = Inr (useAction c i)"
| "applyOp (UseBonusAction i) c = Inr (useBonusAction c i)"
| "applyOp (UseReaction i) c = Inr (useReaction c i)"
| "applyOp (UseMovement i amount) c = Inr (useMovement c i amount)"
| "applyOp (Flee i) c = Inr (flee c i)"
| "applyOp (AddTempHp targetId amount) c = Inr (addTempHp c targetId amount)"
| "applyOp (AddEnvironmentalEffect effect) c = Inr (addEnvironmentalEffect c effect)"
| "applyOp (RemoveEnvironmentalEffect effect) c = Inr (removeEnvironmentalEffect c effect)"
| "applyOp EndCombat c = Inr (end_combat (endCombat c))"

fun runOps :: "CombatOp list \<Rightarrow> Combat \<Rightarrow> error + Combat" where
  "runOps [] c = Inr c"
| "runOps (operation # rest) c =
     (case applyOp operation c of Inl e \<Rightarrow> Inl e | Inr c' \<Rightarrow> runOps rest c')"

section \<open>Dice engine: notation parser\<close>

record ParsedDice =
  dice_count :: number
  dice_sides :: number
  dice_modifier :: number
  keepHighest :: "number option"
  keepLowest :: "number option"

text \<open>The class \<^verbatim>\<open>\d\<close> and the integer that a run of decimal digits denotes.\<close>

definition isDigit :: "char \<Rightarrow> bool" where
  "isDigit c = (48 \<le> (of_char c :: nat) \<and> (of_char c :: nat) \<le> 57)"

definition digitValue :: "char \<Rightarrow> int" where
  "digitValue c = int (of_char c) - 48"

definition parseDigits :: "string \<Rightarrow> int" where
  "parseDigits s = foldl (\<lambda>acc c. 10 * acc + digitValue c) 0 s"

text \<open>The number of binary digits of a positive integer.\<close>

function bitLength :: "int \<Rightarrow> nat" where
  "bitLength n = (if n \<le> 0 then 0 else Suc (bitLength (n div 2)))"
  by pat_completeness auto

termination bitLength
  by (relation "measure nat") auto

declare bitLength.simps [simp del]

text \<open>A JavaScript number is an IEEE 754 double: an integer is stored as the nearest
  double, which keeps its 53 leading binary digits and rounds the rest to nearest, a tie
  going to the even neighbour; a magnitude that rounds to \<open>2 ^ 1024\<close> or more is an
  infinity. Below \<open>2 ^ 53\<close> nothing is dropped.\<close>

definition nearestDouble :: "int \<Rightarrow> number" where
  "nearestDouble n =
     (let a = \<bar>n\<bar>;
          e = bitLength a - 53;
          q = a div 2 ^ e;
          r = a mod 2 ^ e;
          significand = (if 2 * r < 2 ^ e \<or> (2 * r = 2 ^ e \<and> even q) then q else q + 1);
          magnitude = significand * 2 ^ e
      in if 2 ^ 1024 \<le> magnitude then (if n < 0 then NegInfinity else Infinity)
         else Finite (if n < 0 then - magnitude else magnitude))"

text \<open>\<^verbatim>\<open>parseInt(s, 10)\<close>: leading whitespace is skipped, a sign is read, then the longest
  run of digits; with no digit the result is \<^verbatim>\<open>NaN\<close>, otherwise the double nearest to the
  signed integer the digits denote (an engine is allowed to read the digits after the 20th
  as zeros; the engines that run this code round the exact value).\<close>

definition parseInt :: "string \<Rightarrow> number" where
  "parseInt s =
     (let trimmed = dropWhile isSpace s;
          negative = (case trimmed of [] \<Rightarrow> False | c # rest \<Rightarrow> c = CHR ''-'');
          unsigned = (case trimmed of
                        [] \<Rightarrow> []
                      | c # rest \<Rightarrow> if c = CHR ''+'' \<or> c = CHR ''-'' then rest else trimmed);
          digits = takeWhile isDigit unsigned
      in if digits = [] then NaN
         else nearestDouble (if negative then - parseDigits digits else parseDigits digits))"

text \<open>\<^verbatim>\<open>x < k\<close> and \<^verbatim>\<open>x > k\<close> for a number \<open>x\<close> and an integer literal \<open>k\<close>; every comparison
  with \<^verbatim>\<open>NaN\<close> is false.\<close>

fun numberLess :: "number \<Rightarrow> int \<Rightarrow> bool" where
  "numberLess (Finite n) k = (n < k)"
| "numberLess NegInfinity k = True"
| "numberLess Infinity k = False"
| "numberLess NaN k = False"

fun numberGreater :: "number \<Rightarrow> int \<Rightarrow> bool" where
  "numberGreater (Finite n) k = (n > k)"
| "numberGreater Infinity k = True"
| "numberGreater NegInfinity k = False"
| "numberGreater NaN k = False"

text \<open>The capture groups of
  \<^verbatim>\<open>/^(\d*)d(\d+)(kh(\d+)|kl(\d+))?([+-]\d+)?$/\<close> that the code reads; a group that did
  not take part in the match is \<open>None\<close>.\<close>

record DiceMatch =
  countStr :: string
  sidesStr :: string
  keepHighStr :: "string option"
  keepLowStr :: "string option"
  modifierStr :: "string option"

text \<open>The optional group \<^verbatim>\<open>(kh(\d+)|kl(\d+))?\<close> at the head of a string: the two inner
  groups and the rest of the string.\<close>

definition matchKeep :: "string \<Rightarrow> string option \<times> string option \<times> string" where
  "matchKeep s =
     (case s of
        k # h # rest \<Rightarrow>
          if k = CHR ''k'' \<and> h = CHR ''h'' \<and> takeWhile isDigit rest \<noteq> []
          then (Some (takeWhile isDigit rest), None, dropWhile isDigit rest)
          else if k = CHR ''k'' \<and> h = CHR ''l'' \<and> takeWhile isDigit rest \<noteq> []
          then (None, Some (takeWhile isDigit rest), dropWhile isDigit rest)
          else (None, None, s)
      | _ \<Rightarrow> (None, None, s))"

text \<open>The optional group \<^verbatim>\<open>([+-]\d+)?\<close> at the head of a string.\<close>

definition matchModifier :: "string \<Rightarrow> string option \<times> string" where
  "matchModifier s =
     (case s of
        c # rest \<Rightarrow>
          if (c = CHR ''+'' \<or> c = CHR ''-'') \<and> takeWhile isDigit rest \<noteq> []
          then (Some (c # takeWhile isDigit rest), dropWhile isDigit rest)
          else (None, s)
      | [] \<Rightarrow> (None, s))"

text \<open>\<^verbatim>\<open>normalized.match(...)\<close>, reading the pattern from left to right. No digit is \<open>d\<close>,
  \<open>k\<close>, \<open>+\<close> or \<open>-\<close>, so each group can only end where its run of digits ends and the
  match, if there is one, is the greedy one; \<^verbatim>\<open>null\<close> is \<open>None\<close>.\<close>

definition matchDice :: "string \<Rightarrow> DiceMatch option" where
  "matchDice normalized =
     (let countStr = takeWhile isDigit normalized;
          afterCount = dropWhile isDigit normalized
      in case afterCount of
           [] \<Rightarrow> None
         | d # afterD \<Rightarrow>
             if d \<noteq> CHR ''d'' then None
             else
               (let sidesStr = takeWhile isDigit afterD;
                    afterSides = dropWhile isDigit afterD;
                    (keepHighStr, keepLowStr, afterKeep) = matchKeep afterSides;
                    (modifierStr, afterModifier) = matchModifier afterKeep
                in if sidesStr \<noteq> [] \<and> afterModifier = []
                   then Some \<lparr>countStr = countStr, sidesStr = sidesStr,
                               keepHighStr = keepHighStr, keepLowStr = keepLowStr,
                               modifierStr = modifierStr\<rparr>
                   else None))"

text \<open>\<^verbatim>\<open>notation.toLowerCase().replace(/\s/g, '')\<close>\<close>

definition normalize :: "string \<Rightarrow> string" where
  "normalize notation = filter (\<lambda>c. \<not> isSpace c) (toLowerCase notation)"

definition parseDiceNotation :: "string \<Rightarrow> error + ParsedDice" where
  "parseDiceNotation notation =
     (case matchDice (normalize notation) of
        None \<Rightarrow> Inl (InvalidNotation notation)
      | Some m \<Rightarrow>
          (let count = (if countStr m \<noteq> [] then parseInt (countStr m) else Finite 1);
               sides = parseInt (sidesStr m);
               modifier = (case modifierStr m of Some s \<Rightarrow> parseInt s | None \<Rightarrow> Finite 0);
               keepHighest = map_option parseInt (keepHighStr m);
               keepLowest = map_option parseInt (keepLowStr m)
           in if numberLess count 1 \<or> numberGreater count 100 then Inl (InvalidDiceCount count)
              else if numberLess sides 1 \<or> numberGreater sides 100
              then Inl (InvalidDiceSides sides)
              else Inr \<lparr>dice_count = count, dice_sides = sides, dice_modifier = modifier,
                        keepHighest = keepHighest, keepLowest = keepLowest\<rparr>))"

section \<open>The dice notation as the specification words it\<close>

text \<open>The specification's grammar \<^verbatim>\<open>[count]d<sides>[kh<N>|kl<N>][+|-modifier]\<close>: the text
  spelt by a count, a number of sides, an optional keep clause (highest or lowest, and how
  many) and an optional signed modifier, each number written in decimal digits.\<close>

datatype KeepClause = KeepHighest string | KeepLowest string

datatype ModifierClause = Plus string | Minus string

fun keepText :: "KeepClause option \<Rightarrow> string" where
  "keepText None = []"
| "keepText (Some (KeepHighest n)) = ''kh'' @ n"
| "keepText (Some (KeepLowest n)) = ''kl'' @ n"

fun modifierText :: "ModifierClause option \<Rightarrow> string" where
  "modifierText None = []"
| "modifierText (Some (Plus n)) = ''+'' @ n"
| "modifierText (Some (Minus n)) = ''-'' @ n"

definition notationText ::
  "string \<Rightarrow> string \<Rightarrow> KeepClause option \<Rightarrow> ModifierClause option \<Rightarrow> string" where
  "notationText cnt sds keep md = cnt @ ''d'' @ sds @ keepText keep @ modifierText md"

text \<open>Decimal digits and the integer a string of them writes, by the place of each digit.\<close>

definition decimalDigits :: string where
  "decimalDigits = ''0123456789''"

definition isDecimalDigit :: "char \<Rightarrow> bool" where
  "isDecimalDigit c \<longleftrightarrow> c \<in> set decimalDigits"

definition digitOf :: "char \<Rightarrow> int" where
  "digitOf c = int (length (takeWhile (\<lambda>d. d \<noteq> c) decimalDigits))"

fun decimalValue :: "string \<Rightarrow> int" where
  "decimalValue [] = 0"
| "decimalValue (c # cs) = digitOf c * 10 ^ length cs + decimalValue cs"

definition isNumber :: "string \<Rightarrow> bool" where
  "isNumber s \<longleftrightarrow> s \<noteq> [] \<and> list_all isDecimalDigit s"

fun keepWellFormed :: "KeepClause option \<Rightarrow> bool" where
  "keepWellFormed None = True"
| "keepWellFormed (Some (KeepHighest n)) = isNumber n"
| "keepWellFormed (Some (KeepLowest n)) = isNumber n"

fun modifierWellFormed :: "ModifierClause option \<Rightarrow> bool" where
  "modifierWellFormed None = True"
| "modifierWellFormed (Some (Plus n)) = isNumber n"
| "modifierWellFormed (Some (Minus n)) = isNumber n"

text \<open>Reading a notation case-insensitively and whitespace-insensitively: whitespace
  (tab, line feed, vertical tab, form feed, carriage return, space, no-break space) counts
  for nothing wherever it stands, and a capital letter counts as its small letter.\<close>

definition whitespaceChars :: string where
  "whitespaceChars = [CHR 0x09, CHR 0x0A, CHR 0x0B, CHR 0x0C, CHR 0x0D, CHR 0x20, CHR 0xA0]"

definition isWhitespace :: "char \<Rightarrow> bool" where
  "isWhitespace c \<longleftrightarrow> c \<in> set whitespaceChars"

definition sameIgnoringCase :: "char \<Rightarrow> char \<Rightarrow> bool" where
  "sameIgnoringCase x y \<longleftrightarrow>
     x = y
     \<or> (x, y) \<in> set (zip ''ABCDEFGHIJKLMNOPQRSTUVWXYZ'' ''abcdefghijklmnopqrstuvwxyz'')
     \<or> (y, x) \<in> set (zip ''ABCDEFGHIJKLMNOPQRSTUVWXYZ'' ''abcdefghijklmnopqrstuvwxyz'')"

fun readsAs :: "string \<Rightarrow> string \<Rightarrow> bool" where
  "readsAs [] text = (text = [])"
| "readsAs (c # cs) text =
     (if isWhitespace c then readsAs cs text
      else (case text of
              [] \<Rightarrow> False
            | t # ts \<Rightarrow> sameIgnoringCase c t \<and> readsAs cs ts))"

text \<open>A notation is spelt by a count, sides, keep clause and modifier when it reads as
  their text; the count may be left out, the other numbers need a digit.\<close>

definition wellFormed ::
  "string \<Rightarrow> string \<Rightarrow> KeepClause option \<Rightarrow> ModifierClause option \<Rightarrow> bool" where
  "wellFormed cnt sds keep md \<longleftrightarrow>
     list_all isDecimalDigit cnt \<and> isNumber sds \<and> keepWellFormed keep \<and> modifierWellFormed md"

definition spells ::
  "string \<Rightarrow> string \<Rightarrow> string \<Rightarrow> KeepClause option \<Rightarrow> ModifierClause option \<Rightarrow> bool" where
  "spells notation cnt sds keep md \<longleftrightarrow>
     wellFormed cnt sds keep md \<and> readsAs notation (notationText cnt sds keep md)"

text \<open>The numbers a spelling writes: the count defaults to 1 and the modifier to 0.\<close>

definition countWritten :: "string \<Rightarrow> int" where
  "countWritten cnt = (if cnt = [] then 1 else decimalValue cnt)"

fun modifierWritten :: "ModifierClause option \<Rightarrow> int" where
  "modifierWritten None = 0"
| "modifierWritten (Some (Plus n)) = decimalValue n"
| "modifierWritten (Some (Minus n)) = - decimalValue n"

fun keepHighestWritten :: "KeepClause option \<Rightarrow> int option" where
  "keepHighestWritten (Some (KeepHighest n)) = Some (decimalValue n)"
| "keepHighestWritten other = None"

fun keepLowestWritten :: "KeepClause option \<Rightarrow> int option" where
  "keepLowestWritten (Some (KeepLowest n)) = Some (decimalValue n)"
| "keepLowestWritten other = None"

text \<open>What the specification says \<^verbatim>\<open>parse\<close> gives for a notation spelt that way: a count
  outside [1,100] is \<open>InvalidDiceCount\<close>, then sides outside [1,100] are
  \<open>InvalidDiceSides\<close>, otherwise the count, the sides, the modifier and the keep clause that
  were written. \<open>specOutcome\<close> returns the written numbers themselves; \<open>asDoubles\<close> turns
  them into JavaScript numbers: the count and the sides of a result are in [1,100] and stay
  what they are, the modifier, the keep number and the number reported in an error become
  the double nearest to what was written.\<close>

record WrittenDice =
  written_count :: int
  written_sides :: int
  written_modifier :: int
  written_keepHighest :: "int option"
  written_keepLowest :: "int option"

datatype SpecError = SpecInvalidDiceCount int | SpecInvalidDiceSides int

definition specOutcome ::
  "string \<Rightarrow> string \<Rightarrow> KeepClause option \<Rightarrow> ModifierClause option \<Rightarrow> SpecError + WrittenDice"
  where
  "specOutcome cnt sds keep md =
     (if \<not> (1 \<le> countWritten cnt \<and> countWritten cnt \<le> 100)
      then Inl (SpecInvalidDiceCount (countWritten cnt))
      else if \<not> (1 \<le> decimalValue sds \<and> decimalValue sds \<le> 100)
      then Inl (SpecInvalidDiceSides (decimalValue sds))
      else Inr \<lparr>written_count = countWritten cnt, written_sides = decimalValue sds,
                written_modifier = modifierWritten md,
                written_keepHighest = keepHighestWritten keep,
                written_keepLowest = keepLowestWritten keep\<rparr>)"

fun asDoubles :: "SpecError + WrittenDice \<Rightarrow> error + ParsedDice" where
  "asDoubles (Inl (SpecInvalidDiceCount n)) = Inl (InvalidDiceCount (nearestDouble n))"
| "asDoubles (Inl (SpecInvalidDiceSides n)) = Inl (InvalidDiceSides (nearestDouble n))"
| "asDoubles (Inr w) =
     Inr \<lparr>dice_count = Finite (written_count w), dice_sides = Finite (written_sides w),
          dice_modifier = nearestDouble (written_modifier w),
          keepHighest = map_option nearestDouble (written_keepHighest w),
          keepLowest = map_option nearestDouble (written_keepLowest w)\<rparr>"

text \<open>The result that holds every written number exactly, for the comparison with what
  the code returns.\<close>

fun exactly :: "SpecError + WrittenDice \<Rightarrow> error + ParsedDice" where
  "exactly (Inl (SpecInvalidDiceCount n)) = Inl (InvalidDiceCount (Finite n))"
| "exactly (Inl (SpecInvalidDiceSides n)) = Inl (InvalidDiceSides (Finite n))"
| "exactly (Inr w) =
     Inr \<lparr>dice_count = Finite (written_count w), dice_sides = Finite (written_sides w),
          dice_modifier = Finite (written_modifier w),
          keepHighest = map_option Finite (written_keepHighest w),
          keepLowest = map_option Finite (written_keepLowest w)\<rparr>"

text \<open>The capture groups a notation spelt that way gives, and where a run of digits has
  to stop: at the end of the text or in front of a character that is no digit.\<close>

fun keepHighGroup :: "KeepClause option \<Rightarrow> string option" where
  "keepHighGroup (Some (KeepHighest n)) = Some n"
| "keepHighGroup other = None"

fun keepLowGroup :: "KeepClause option \<Rightarrow> string option" where
  "keepLowGroup (Some (KeepLowest n)) = Some n"
| "keepLowGroup other = None"

fun modifierGroup :: "ModifierClause option \<Rightarrow> string option" where
  "modifierGroup None = None"
| "modifierGroup (Some (Plus n)) = Some (''+'' @ n)"
| "modifierGroup (Some (Minus n)) = Some (''-'' @ n)"

definition groupsOf ::
  "string \<Rightarrow> string \<Rightarrow> KeepClause option \<Rightarrow> ModifierClause option \<Rightarrow> DiceMatch" where
  "groupsOf cnt sds keep md =
     \<lparr>countStr = cnt, sidesStr = sds, keepHighStr = keepHighGroup keep,
      keepLowStr = keepLowGroup keep, modifierStr = modifierGroup md\<rparr>"

text \<open>The characters the text of a notation is made of.\<close>

definition notationChars :: string where
  "notationChars = ''0123456789dkhl+-''"

definition stopsDigits :: "string \<Rightarrow> bool" where
  "stopsDigits s \<longleftrightarrow> (case s of [] \<Rightarrow> True | c # cs \<Rightarrow> \<not> isDigit c)"

section \<open>Dice engine: random source\<close>

text \<open>JavaScript's \<^verbatim>\<open>%\<close> on integers: the remainder takes the sign of the dividend, and
  a zero divisor gives NaN, which is \<open>None\<close> here.\<close>

definition jsRem :: "int \<Rightarrow> int \<Rightarrow> int option" where
  "jsRem a b = (if b = 0 then None else Some (sgn a * (\<bar>a\<bar> mod \<bar>b\<bar>)))"

text \<open>\<^verbatim>\<open>randomInt(min, max)\<close> on its cryptographic path, with \<open>lo\<close> for \<^verbatim>\<open>min\<close> and \<open>hi\<close>
  for \<^verbatim>\<open>max\<close>; \<open>word\<close> is the element that
  \<^verbatim>\<open>crypto.getRandomValues\<close> wrote into the \<^verbatim>\<open>Uint32Array\<close>. The fallback path,
  \<^verbatim>\<open>Math.floor(Math.random() * (max - min + 1)) + min\<close>, is floating point and not modelled.\<close>

definition randomInt :: "int \<Rightarrow> int \<Rightarrow> 32 word \<Rightarrow> int option" where
  "randomInt lo hi word =
     (let range = hi - lo + 1
      in map_option (\<lambda>r. lo + r) (jsRem (uint word) range))"

definition rollDie :: "int \<Rightarrow> 32 word \<Rightarrow> int option" where
  "rollDie sides word = randomInt 1 sides word"

text \<open>How many of the \<open>2^32\<close> generator words make \<^verbatim>\<open>randomInt(min, max)\<close> return \<open>v\<close>.\<close>

definition wordCount :: "int \<Rightarrow> int \<Rightarrow> int \<Rightarrow> nat" where
  "wordCount lo hi v =
     length (filter (\<lambda>n. randomInt lo hi (word_of_nat n) = Some v) [0..<2 ^ 32])"

section \<open>Dice engine: initiative\<close>

text \<open>\<^verbatim>\<open>Array.prototype.sort(compareFn)\<close>: a stable sort; \<open>a\<close> comes before \<open>b\<close> when
  \<open>compareFn a b < 0\<close>, and elements that compare equal keep their order. It is modelled by
  insertion from the right, which is stable.\<close>

fun insertBy :: "('a \<Rightarrow> 'a \<Rightarrow> int) \<Rightarrow> 'a \<Rightarrow> 'a list \<Rightarrow> 'a list" where
  "insertBy cmp x [] = [x]"
| "insertBy cmp x (y # ys) = (if cmp x y \<le> 0 then x # y # ys else y # insertBy cmp x ys)"

fun sortBy :: "('a \<Rightarrow> 'a \<Rightarrow> int) \<Rightarrow> 'a list \<Rightarrow> 'a list" where
  "sortBy cmp [] = []"
| "sortBy cmp (x # xs) = insertBy cmp x (sortBy cmp xs)"

text \<open>The argument of \<^verbatim>\<open>rollInitiative\<close>: \<^verbatim>\<open>{ id, name, dexterityModifier }\<close>.\<close>

record InitiativeRequest =
  req_id :: string
  req_name :: string
  dexterityModifier :: int

text \<open>The comparison function passed to \<^verbatim>\<open>results.sort\<close>.\<close>

definition compareInitiative :: "InitiativeResult \<Rightarrow> InitiativeResult \<Rightarrow> int" where
  "compareInitiative a b =
     (if res_total b \<noteq> res_total a then res_total b - res_total a
      else res_modifier b - res_modifier a)"

text \<open>The callback of \<^verbatim>\<open>combatants.map\<close>. A d20 is never NaN (lemma \<open>rollDie_20\<close>), so the
  second branch is never taken.\<close>

definition rollFor :: "32 word \<Rightarrow> InitiativeRequest \<Rightarrow> InitiativeResult" where
  "rollFor word c =
     (case rollDie 20 word of
        Some roll \<Rightarrow>
          \<lparr>res_combatantId = req_id c, res_combatantName = req_name c, res_roll = roll,
           res_modifier = dexterityModifier c, res_total = roll + dexterityModifier c\<rparr>
      | None \<Rightarrow>
          \<lparr>res_combatantId = req_id c, res_combatantName = req_name c, res_roll = 0,
           res_modifier = dexterityModifier c, res_total = 0\<rparr>)"

text \<open>The \<open>results\<close> array before it is sorted: the combatant at index \<open>i\<close> gets the word of
  the \<open>(k + i)\<close>-th draw from the generator \<open>rng\<close>.\<close>

fun rollEach :: "(nat \<Rightarrow> 32 word) \<Rightarrow> nat \<Rightarrow> InitiativeRequest list \<Rightarrow> InitiativeResult list" where
  "rollEach rng k [] = []"
| "rollEach rng k (c # cs) = rollFor (rng k) c # rollEach rng (Suc k) cs"

definition rollInitiative :: "(nat \<Rightarrow> 32 word) \<Rightarrow> InitiativeRequest list \<Rightarrow> InitiativeResult list" where
  "rollInitiative rng combatants = sortBy compareInitiative (rollEach rng 0 combatants)"

section \<open>Combat engine: starting an encounter\<close>

text \<open>The template literal \<^verbatim>\<open>${i + 1}\<close>: a natural number in decimal.\<close>

definition digitChar :: "nat \<Rightarrow> char" where
  "digitChar d = ''0123456789'' ! d"

function showNat :: "nat \<Rightarrow> string" where
  "showNat n = (if n < 10 then [digitChar n] else showNat (n div 10) @ [digitChar (n mod 10)])"
  by pat_completeness auto
termination
  by (relation "measure (\<lambda>n. n)") auto

declare showNat.simps [simp del]

text \<open>The entries of the local array \<^verbatim>\<open>initiativeCombatants\<close>.\<close>

record InitiativeCombatant =
  ic_id :: string
  ic_name :: string
  ic_dexterityModifier :: int
  ic_source :: Source
  ic_type :: CombatantType

text \<open>The three \<^verbatim>\<open>for\<close> statements that fill \<^verbatim>\<open>initiativeCombatants\<close>;
  \<open>enumerate 0\<close> pairs every element with the index \<open>i\<close>.\<close>

definition characterCombatants :: "Character list \<Rightarrow> InitiativeCombatant list" where
  "characterCombatants characters =
     map (\<lambda>character.
       \<lparr>ic_id = char_id character,
        ic_name = char_name character,
        ic_dexterityModifier =
          getAbilityModifier (score_dexterity (char_abilityScores character)),
        ic_source = FromCharacter character,
        ic_type = player_character\<rparr>) characters"

definition enemyCombatants :: "MonsterStatBlock list \<Rightarrow> InitiativeCombatant list" where
  "enemyCombatants monsters =
     map (\<lambda>(i, monster).
       \<lparr>ic_id = slug (mon_name monster) @ ''_'' @ showNat (i + 1),
        ic_name =
          (if length monsters > 1
              \<and> length (filter (\<lambda>m. mon_name m = mon_name monster) monsters) > 1
           then mon_name monster @ '' '' @ showNat (i + 1)
           else mon_name monster),
        ic_dexterityModifier =
          getAbilityModifier (score_dexterity (mon_abilityScores monster)),
        ic_source = FromMonster monster,
        ic_type = enemy\<rparr>) (enumerate 0 monsters)"

definition allyCombatants :: "MonsterStatBlock list \<Rightarrow> InitiativeCombatant list" where
  "allyCombatants allyMonsters =
     map (\<lambda>(i, monster).
       \<lparr>ic_id = ''ally_'' @ slug (mon_name monster) @ ''_'' @ showNat (i + 1),
        ic_name = mon_name monster @ '' (Ally)'',
        ic_dexterityModifier =
          getAbilityModifier (score_dexterity (mon_abilityScores monster)),
        ic_source = FromMonster monster,
        ic_type = ally\<rparr>) (enumerate 0 allyMonsters)"

text \<open>The callback of \<^verbatim>\<open>initiativeResults.map\<close>. Should \<^verbatim>\<open>find\<close> come back empty, reading
  \<^verbatim>\<open>source.source\<close> throws a TypeError. The \<open>uuid\<close> is only read by
  \<^verbatim>\<open>createCombatantFromMonster\<close> for an empty instance id, which the ids built above
  never are.\<close>

definition combatantFor ::
  "InitiativeCombatant list \<Rightarrow> string \<Rightarrow> InitiativeResult \<Rightarrow> error + Combatant" where
  "combatantFor initiativeCombatants uuid result =
     (case find (\<lambda>c. ic_id c = res_combatantId result) initiativeCombatants of
        None \<Rightarrow> Inl (TypeError ''source is undefined'')
      | Some source \<Rightarrow>
          (case ic_source source of
             FromCharacter character \<Rightarrow> Inr (createCombatantFromCharacter character result)
           | FromMonster monster \<Rightarrow>
               Inr ((createCombatantFromMonster monster result (ic_type source)
                       (Some (ic_id source)) uuid)\<lparr>cname := ic_name source\<rparr>)))"

text \<open>\<^verbatim>\<open>Array.prototype.map\<close> with a callback that may throw: the first error ends it.\<close>

fun mapResult :: "('a \<Rightarrow> error + 'b) \<Rightarrow> 'a list \<Rightarrow> error + 'b list" where
  "mapResult f [] = Inr []"
| "mapResult f (x # xs) =
     (case f x of
        Inl e \<Rightarrow> Inl e
      | Inr y \<Rightarrow> (case mapResult f xs of Inl e \<Rightarrow> Inl e | Inr ys \<Rightarrow> Inr (y # ys)))"

text \<open>\<^verbatim>\<open>startCombat(characters, monsters, { allyMonsters, surprisedIds })\<close>. \<open>rng\<close> is the
  generator (its \<open>k\<close>-th word), \<open>uuid\<close> the string \<^verbatim>\<open>uuidv4()\<close> returns for the combat id.\<close>

definition startCombat ::
  "(nat \<Rightarrow> 32 word) \<Rightarrow> string \<Rightarrow> Character list \<Rightarrow> MonsterStatBlock list
     \<Rightarrow> MonsterStatBlock list \<Rightarrow> string list \<Rightarrow> error + Combat" where
  "startCombat rng uuid characters monsters allyMonsters surprisedIds =
     (let initiativeCombatants =
            characterCombatants characters @ enemyCombatants monsters
              @ allyCombatants allyMonsters;
          initiativeResults = rollInitiative rng
            (map (\<lambda>c. \<lparr>req_id = ic_id c, req_name = ic_name c,
                         dexterityModifier = ic_dexterityModifier c\<rparr>) initiativeCombatants)
      in case mapResult (combatantFor initiativeCombatants uuid) initiativeResults of
           Inl e \<Rightarrow> Inl e
         | Inr combatants \<Rightarrow>
             Inr \<lparr>combat_id = uuid,
                  round = 1,
                  initiativeOrder = combatants,
                  currentTurnIndex = 0,
                  surprisedCombatantIds = surprisedIds,
                  environmentalEffects = [],
                  isActive = True\<rparr>)"

section \<open>Invariants of the data model\<close>

text \<open>The bounds the data model states for a combatant, with the non-negative speed that
  \<^verbatim>\<open>nextTurn\<close> copies into \<open>movementRemaining\<close>.\<close>

definition combatantBounds :: "Combatant \<Rightarrow> bool" where
  "combatantBounds c \<longleftrightarrow>
     0 \<le> currentHp c \<and> currentHp c \<le> maxHp c \<and> 0 \<le> tempHp c
     \<and> 0 \<le> movementRemaining (turnResources c) \<and> 0 \<le> speed c"

definition boundsOk :: "Combat \<Rightarrow> bool" where
  "boundsOk combat \<longleftrightarrow> list_all combatantBounds (initiativeOrder combat)"

fun healingAmountOk :: "CombatOp \<Rightarrow> bool" where
  "healingAmountOk (ApplyHealing targetId amount) = (0 \<le> amount)"
| "healingAmountOk (AddTempHp targetId amount) = (0 \<le> amount)"
| "healingAmountOk other = True"

text \<open>No combatant carries two conditions of the same name.\<close>

definition namesDistinct :: "Combatant \<Rightarrow> bool" where
  "namesDistinct c \<longleftrightarrow> distinct (map cond_name (conditions c))"

definition conditionsUnique :: "Combat \<Rightarrow> bool" where
  "conditionsUnique combat \<longleftrightarrow> list_all namesDistinct (initiativeOrder combat)"

fun isApplyDamage :: "CombatOp \<Rightarrow> bool" where
  "isApplyDamage (ApplyDamage targetId amount) = True"
| "isApplyDamage other = False"

text \<open>The hypotheses of a full pass through the initiative order: everybody is active, and
  no surprise skip is pending.\<close>

definition allActive :: "Combat \<Rightarrow> bool" where
  "allActive combat \<longleftrightarrow> list_all (\<lambda>c. status c = active) (initiativeOrder combat)"

definition noSurprisePending :: "Combat \<Rightarrow> bool" where
  "noSurprisePending combat \<longleftrightarrow> surprisedCombatantIds combat = [] \<or> round combat > 1"

text \<open>The order the initiative results are to be in: descending by total, ties broken by
  descending modifier; and the results that share one total and one modifier.\<close>

definition initiativeBefore :: "InitiativeResult \<Rightarrow> InitiativeResult \<Rightarrow> bool" where
  "initiativeBefore a b \<longleftrightarrow>
     res_total a > res_total b \<or> (res_total a = res_total b \<and> res_modifier a \<ge> res_modifier b)"

definition sameKey :: "int \<Rightarrow> int \<Rightarrow> InitiativeResult \<Rightarrow> bool" where
  "sameKey t m r \<longleftrightarrow> res_total r = t \<and> res_modifier r = m"

text \<open>The display names of an encounter, in initiative order.\<close>

definition combatantNames :: "Combat \<Rightarrow> string list" where
  "combatantNames combat = map cname (initiativeOrder combat)"

text \<open>Nobody who is surprised has the turn in round 1; and what the operations that do
  not move the turn leave as it was.\<close>

definition notSurprisedTurn :: "Combat \<Rightarrow> bool" where
  "notSurprisedTurn combat \<longleftrightarrow>
     (case getCurrentCombatant combat of
        None \<Rightarrow> True
      | Some current \<Rightarrow> round combat = 1 \<longrightarrow> cid current \<notin> set (surprisedCombatantIds combat))"

definition turnFrame :: "Combat \<Rightarrow> Combat \<Rightarrow> bool" where
  "turnFrame c c' \<longleftrightarrow>
     map cid (initiativeOrder c') = map cid (initiativeOrder c) \<and> round c' = round c
     \<and> currentTurnIndex c' = currentTurnIndex c
     \<and> surprisedCombatantIds c' = surprisedCombatantIds c \<and> isActive c' = isActive c"

text \<open>The array \<^verbatim>\<open>initiativeCombatants\<close> of \<^verbatim>\<open>startCombat\<close> as a whole, the request made
  of an entry, and what holds of every entry built there: a character's entry carries the
  character's id and name, a monster's entry a non-empty id.\<close>

definition initiativeEntries ::
  "Character list \<Rightarrow> MonsterStatBlock list \<Rightarrow> MonsterStatBlock list \<Rightarrow> InitiativeCombatant list" where
  "initiativeEntries characters monsters allyMonsters =
     characterCombatants characters @ enemyCombatants monsters @ allyCombatants allyMonsters"

definition entryOk :: "InitiativeCombatant \<Rightarrow> bool" where
  "entryOk e \<longleftrightarrow>
     (case ic_source e of
        FromCharacter character \<Rightarrow> ic_id e = char_id character \<and> ic_name e = char_name character
      | FromMonster monster \<Rightarrow> ic_id e \<noteq> [])"

definition requestOf :: "InitiativeCombatant \<Rightarrow> InitiativeRequest" where
  "requestOf c = \<lparr>req_id = ic_id c, req_name = ic_name c,
     dexterityModifier = ic_dexterityModifier c\<rparr>"

text \<open>The name with the 1-based position in the monster list behind it, for a name that
  occurs more than once in the list.\<close>

definition numberedName :: "MonsterStatBlock list \<Rightarrow> nat \<Rightarrow> string" where
  "numberedName monsters i =
     (if 1 < length (filter (\<lambda>m. mon_name m = mon_name (monsters ! i)) monsters)
      then mon_name (monsters ! i) @ '' '' @ showNat (i + 1)
      else mon_name (monsters ! i))"

text \<open>What \<^verbatim>\<open>nextTurn\<close> does to the combatant it lands on.\<close>

definition resetTurn :: "Combatant \<Rightarrow> Combatant" where
  "resetTurn c = c\<lparr>turnResources := createDefaultTurnResources (speed c)\<rparr>"

text \<open>End-of-round processing in the specification's words, for one condition: a condition
  that is not counted in rounds is untouched; one counted in rounds has its remaining value
  decremented by 1 and is removed when nothing remains.\<close>

definition afterOneRound :: "ActiveCondition \<Rightarrow> ActiveCondition option" where
  "afterOneRound condition =
     (if dtype (duration condition) \<noteq> rounds then Some condition
      else (case dvalue (duration condition) of
              None \<Rightarrow> None
            | Some v \<Rightarrow>
                if v - 1 > 0
                then Some (condition\<lparr>duration := (duration condition)\<lparr>dvalue := Some (v - 1)\<rparr>\<rparr>)
                else None))"

definition conditionsAfterOneRound :: "ActiveCondition list \<Rightarrow> ActiveCondition list" where
  "conditionsAfterOneRound cs = List.map_filter afterOneRound cs"

section \<open>Fixtures\<close>

text \<open>The snapshots the repository's own tests use (\<^verbatim>\<open>createMockCharacter\<close>,
  \<^verbatim>\<open>createMockMonster\<close> in CombatEngine.test.ts), and an encounter of the two with the
  hero first.\<close>

definition mockScores :: AbilityScores where
  "mockScores = \<lparr>score_strength = 16, score_dexterity = 14, score_constitution = 14,
     score_intelligence = 10, score_wisdom = 12, score_charisma = 8\<rparr>"

definition mockCharacter :: Character where
  "mockCharacter = \<lparr>char_id = ''hero'', char_name = ''Test Hero'',
     char_abilityScores = mockScores, char_maxHp = 45, char_currentHp = 45, char_tempHp = 0,
     char_armorClass = 18, char_speed = 30, char_conditions = []\<rparr>"

definition mockMonster :: MonsterStatBlock where
  "mockMonster = \<lparr>mon_name = ''Goblin'', mon_armorClass = 15, mon_hitPoints = 7,
     mon_speed_walk = 30,
     mon_abilityScores = \<lparr>score_strength = 8, score_dexterity = 14, score_constitution = 10,
       score_intelligence = 10, score_wisdom = 8, score_charisma = 8\<rparr>\<rparr>"

definition mockHero :: Combatant where
  "mockHero = createCombatantFromCharacter mockCharacter
     \<lparr>res_combatantId = ''hero'', res_combatantName = ''Test Hero'',
      res_roll = 15, res_modifier = 2, res_total = 17\<rparr>"

definition mockGoblin :: Combatant where
  "mockGoblin = createCombatantFromMonster mockMonster
     \<lparr>res_combatantId = ''goblin_1'', res_combatantName = ''Goblin'',
      res_roll = 10, res_modifier = 2, res_total = 12\<rparr> enemy (Some ''goblin_1'') []"

definition mockCombat :: Combat where
  "mockCombat = \<lparr>combat_id = ''combat'', round = 1, initiativeOrder = [mockHero, mockGoblin],
     currentTurnIndex = 0, surprisedCombatantIds = [], environmentalEffects = [],
     isActive = True\<rparr>"

text \<open>The hero put to sleep: an \<open>unconscious\<close> condition that does not come from damage.\<close>

definition sleepCondition :: ActiveCondition where
  "sleepCondition = \<lparr>cond_name = unconscious, cond_source = ''Sleep spell'',
     duration = \<lparr>dtype = rounds, dvalue = Some 10, dability = None, drestType = None\<rparr>\<rparr>"

definition asleepCombat :: Combat where
  "asleepCombat = mockCombat\<lparr>initiativeOrder :=
     [mockHero\<lparr>conditions := [sleepCondition]\<rparr>, mockGoblin]\<rparr>"

text \<open>The encounter with nobody in it, as \<^verbatim>\<open>startCombat([], [])\<close> returns it.\<close>

definition emptyCombat :: Combat where
  "emptyCombat = \<lparr>combat_id = ''combat'', round = 1, initiativeOrder = [],
     currentTurnIndex = 0, surprisedCombatantIds = [], environmentalEffects = [],
     isActive = True\<rparr>"

text \<open>Three initiative requests and a generator whose words make the first two tie
  (a roll of 10 each, with the same modifier) and the third roll a 20.\<close>

definition mockRequests :: "InitiativeRequest list" where
  "mockRequests =
     [\<lparr>req_id = ''a'', req_name = ''Aria'', dexterityModifier = 2\<rparr>,
      \<lparr>req_id = ''b'', req_name = ''Bram'', dexterityModifier = 2\<rparr>,
      \<lparr>req_id = ''c'', req_name = ''Cole'', dexterityModifier = 3\<rparr>]"

definition mockRng :: "nat \<Rightarrow> 32 word" where
  "mockRng k = (if k = 2 then 19 else 9)"

text \<open>A second monster, a generator that only gives the word 0 (every d20 rolls a 1), and the
  encounter of the hero and the goblin in which the hero is surprised and, both totals and
  modifiers being equal, comes first.\<close>

definition mockOrc :: MonsterStatBlock where
  "mockOrc = \<lparr>mon_name = ''Orc'', mon_armorClass = 13, mon_hitPoints = 15,
     mon_speed_walk = 30,
     mon_abilityScores = \<lparr>score_strength = 16, score_dexterity = 12, score_constitution = 16,
       score_intelligence = 7, score_wisdom = 11, score_charisma = 10\<rparr>\<rparr>"

definition zeroRng :: "nat \<Rightarrow> 32 word" where
  "zeroRng k = 0"

definition surprisedCombat :: Combat where
  "surprisedCombat =
     \<lparr>combat_id = ''combat'', round = 1,
      initiativeOrder =
        [createCombatantFromCharacter mockCharacter
           \<lparr>res_combatantId = ''hero'', res_combatantName = ''Test Hero'',
            res_roll = 1, res_modifier = 2, res_total = 3\<rparr>,
         createCombatantFromMonster mockMonster
           \<lparr>res_combatantId = ''goblin_1'', res_combatantName = ''Goblin'',
            res_roll = 1, res_modifier = 2, res_total = 3\<rparr> enemy (Some ''goblin_1'') []],
      currentTurnIndex = 0, surprisedCombatantIds = [''hero''], environmentalEffects = [],
      isActive = True\<rparr>"

text \<open>Two goblins with an orc between them.\<close>

definition threeMonsters :: "MonsterStatBlock list" where
  "threeMonsters = [mockMonster, mockOrc, mockMonster]"

text \<open>The encounter of the tests with the goblin brought to 0 HP and defeated.\<close>

definition downedGoblinCombat :: Combat where
  "downedGoblinCombat =
     mockCombat\<lparr>initiativeOrder := [mockHero, mockGoblin\<lparr>currentHp := 0, status := defeated\<rparr>]\<rparr>"

text \<open>The encounter of the tests with conditions on both combatants: two rounds of poison and
  one round prone on the hero, one round prone and an open-ended charm on the goblin.\<close>

definition poisonedTwoRounds :: ActiveCondition where
  "poisonedTwoRounds = \<lparr>cond_name = poisoned, cond_source = ''dart'',
     duration = \<lparr>dtype = rounds, dvalue = Some 2, dability = None, drestType = None\<rparr>\<rparr>"

definition proneOneRound :: ActiveCondition where
  "proneOneRound = \<lparr>cond_name = prone, cond_source = ''shove'',
     duration = \<lparr>dtype = rounds, dvalue = Some 1, dability = None, drestType = None\<rparr>\<rparr>"

definition charmedUntilDispelled :: ActiveCondition where
  "charmedUntilDispelled = \<lparr>cond_name = charmed, cond_source = ''spell'',
     duration = \<lparr>dtype = untilDispelled, dvalue = None, dability = None, drestType = None\<rparr>\<rparr>"

definition afflictedCombat :: Combat where
  "afflictedCombat = mockCombat\<lparr>initiativeOrder :=
     [mockHero\<lparr>conditions := [poisonedTwoRounds, proneOneRound]\<rparr>,
      mockGoblin\<lparr>conditions := [proneOneRound, charmedUntilDispelled]\<rparr>]\<rparr>"

section \<open>Unfolding the turn functions\<close>

lemma findNextActive_funpow:
  assumes "findNextActive len i it nr uc = (j, it', nr', uc')"
  shows "\<exists>k. uc' = (processEndOfRound ^^ k) uc"
  using assms
proof (induction len i it nr uc rule: findNextActive.induct)
  case (1 len nextIndex iterations newRound updatedCombat)
  let ?i' = "(nextIndex + 1) mod len"
  let ?uc' = "if ?i' = 0 then processEndOfRound updatedCombat else updatedCombat"
  let ?nr' = "if ?i' = 0 then round ?uc' else newRound"
  let ?C = "status (initiativeOrder ?uc' ! ?i') \<noteq> active \<and> iterations + 1 < len"
  have unf: "findNextActive len nextIndex iterations newRound updatedCombat =
      (if ?C then findNextActive len ?i' (iterations + 1) ?nr' ?uc'
       else (?i', iterations + 1, ?nr', ?uc'))"
    by (subst findNextActive.simps) (simp only: Let_def)
  have one: "\<exists>k. ?uc' = (processEndOfRound ^^ k) updatedCombat"
  proof (cases "?i' = 0")
    case True
    then have "?uc' = (processEndOfRound ^^ 1) updatedCombat" by simp
    then show ?thesis by blast
  next
    case False
    then have "?uc' = (processEndOfRound ^^ 0) updatedCombat" by simp
    then show ?thesis by blast
  qed
  show ?case
  proof (cases ?C)
    case True
    have eq: "findNextActive len ?i' (iterations + 1) ?nr' ?uc' = (j, it', nr', uc')"
      by (rule trans [OF trans [OF unf if_P [OF True], symmetric] "1.prems"(1)])
    from "1.IH" [OF refl refl refl refl True eq]
    obtain k where k: "uc' = (processEndOfRound ^^ k) ?uc'" by blast
    from one obtain m where m: "?uc' = (processEndOfRound ^^ m) updatedCombat" by blast
    have "uc' = (processEndOfRound ^^ (k + m)) updatedCombat"
      by (subst k, subst m) (simp add: funpow_add)
    then show ?thesis by blast
  next
    case False
    have eq: "(j, it', nr', uc') = (?i', iterations + 1, ?nr', ?uc')"
      by (rule trans [OF "1.prems"(1) [symmetric] trans [OF unf if_not_P [OF False]]])
    then have "uc' = ?uc'" by simp
    with one show ?thesis by simp
  qed
qed

lemma findNextActive_preserves:
  assumes "findNextActive len i it nr uc = (j, it', nr', uc')"
    and "\<And>c. I c \<Longrightarrow> I (processEndOfRound c)" and "I uc"
  shows "I uc'"
proof -
  from findNextActive_funpow [OF assms(1)] obtain k where k: "uc' = (processEndOfRound ^^ k) uc"
    by blast
  have "I ((processEndOfRound ^^ k) uc)"
    by (induction k) (simp_all add: assms(2,3))
  then show ?thesis by (simp add: k)
qed

lemma advanceTurn_unfold:
  assumes "findNextActive (length (initiativeOrder c)) (currentTurnIndex c) 0 (round c) c
             = (j, it', nr', uc')"
  shows "advanceTurn c =
     (nr' = 1 \<and> cid (initiativeOrder uc' ! j) \<in> set (surprisedCombatantIds uc'),
      uc'\<lparr>round := nr', currentTurnIndex := j,
          initiativeOrder := (initiativeOrder uc')[j :=
            (initiativeOrder uc' ! j)\<lparr>turnResources :=
               createDefaultTurnResources (speed (initiativeOrder uc' ! j))\<rparr>]\<rparr>)"
  by (simp add: advanceTurn_def assms Let_def)

declare nextTurn.simps [simp del]

lemma nextTurn_inactive: "\<not> isActive c \<Longrightarrow> nextTurn c = c"
  by (subst nextTurn.simps) simp

lemma nextTurn_none_active:
  "isActive c \<Longrightarrow> filter (\<lambda>x. status x = active) (initiativeOrder c) = [] \<Longrightarrow>
   nextTurn c = c\<lparr>isActive := False\<rparr>"
  by (subst nextTurn.simps) simp

lemma nextTurn_step:
  "isActive c \<Longrightarrow> filter (\<lambda>x. status x = active) (initiativeOrder c) \<noteq> [] \<Longrightarrow>
   advanceTurn c = (s, c') \<Longrightarrow> nextTurn c = (if s then nextTurn c' else c')"
  by (subst nextTurn.simps) simp

lemma nextTurn_preserves:
  assumes step: "\<And>c s c'. advanceTurn c = (s, c') \<Longrightarrow> initiativeOrder c \<noteq> [] \<Longrightarrow> I c \<Longrightarrow> I c'"
    and stop: "\<And>c. I c \<Longrightarrow> I (c\<lparr>isActive := False\<rparr>)"
  shows "I c \<Longrightarrow> I (nextTurn c)"
proof (induction c rule: nextTurn.induct)
  case (1 combat)
  show ?case
  proof (cases "isActive combat")
    case False
    then show ?thesis using "1.prems" by (simp add: nextTurn_inactive)
  next
    case act: True
    show ?thesis
    proof (cases "filter (\<lambda>x. status x = active) (initiativeOrder combat) = []")
      case True
      then show ?thesis using "1.prems" act by (simp add: nextTurn_none_active stop)
    next
      case False
      obtain s c' where a: "advanceTurn combat = (s, c')" by (metis surj_pair)
      have ne: "initiativeOrder combat \<noteq> []" using False by auto
      have b: "I c'" by (rule step [OF a ne "1.prems"])
      have len: "length (filter (\<lambda>c. status c = active) (initiativeOrder combat)) \<noteq> 0"
        using False by simp
      show ?thesis
      proof (cases s)
        case True
        have "I (nextTurn c')"
          using "1.IH" [OF _ len a [symmetric] True b] act by simp
        then show ?thesis using nextTurn_step [OF act False a] True by simp
      next
        case False
        then show ?thesis using nextTurn_step [OF act \<open>filter _ _ \<noteq> []\<close> a] b by simp
      qed
    qed
  qed
qed

section \<open>Damage and healing\<close>

lemma mockHero_fields:
  "cid mockHero = ''hero''" "currentHp mockHero = 45" "maxHp mockHero = 45"
  "tempHp mockHero = 0" "isPlayer mockHero" "status mockHero = active"
  "conditions mockHero = []" "speed mockHero = 30"
  by (simp_all add: mockHero_def createCombatantFromCharacter_def mockCharacter_def)

lemma mockGoblin_fields:
  "cid mockGoblin = ''goblin_1''" "currentHp mockGoblin = 7" "maxHp mockGoblin = 7"
  "tempHp mockGoblin = 0" "\<not> isPlayer mockGoblin" "status mockGoblin = active"
  "conditions mockGoblin = []" "speed mockGoblin = 30"
  by (simp_all add: mockGoblin_def createCombatantFromMonster_def mockMonster_def)

lemma mockCombat_fields:
  "initiativeOrder mockCombat = [mockHero, mockGoblin]" "round mockCombat = 1"
  "currentTurnIndex mockCombat = 0" "isActive mockCombat"
  "surprisedCombatantIds mockCombat = []"
  by (simp_all add: mockCombat_def)

text \<open>What \<^verbatim>\<open>applyDamage\<close> reports is the clamped amount itself: the remainder left after
  the temporary HP is added in full, before the regular HP is floored at 0.\<close>

lemma depleteTempHp_sum:
  "depleteTempHp d t = (r, a, t') \<Longrightarrow> 0 \<le> d \<Longrightarrow> a + r = d"
  by (auto simp: depleteTempHp_def split: if_splits)

lemma applyDamage_reports_amount:
  assumes "applyDamage combat targetId amount = Inr res"
  shows "actualDamage res = max 0 amount"
proof -
  obtain i where i: "findIndex (\<lambda>c. cid c = targetId) (initiativeOrder combat) = Some i"
    using assms by (auto simp: applyDamage_def split: option.splits)
  obtain r a t' where d: "depleteTempHp (max 0 amount) (tempHp (initiativeOrder combat ! i)) = (r, a, t')"
    by (metis prod_cases3)
  have "actualDamage res = a + r"
    using assms by (auto simp: applyDamage_def i d Let_def)
  with depleteTempHp_sum [OF d] show ?thesis by simp
qed

text \<open>
  C1. The claim: the damage \<^verbatim>\<open>applyDamage\<close> reports never exceeds the temporary plus
  current HP the target had. Here the hero of the repository's tests, at 45 HP with no
  temporary HP, is hit for 1000: the hero ends at 0 HP, having lost 45, and the reported
  \<open>actualDamage\<close> is 1000.
\<close>

theorem applyDamage_overkill_reports_full_amount:
  "\<exists>res. applyDamage mockCombat ''hero'' 1000 = Inr res
     \<and> actualDamage res = 1000
     \<and> tempHp (initiativeOrder mockCombat ! 0) + currentHp (initiativeOrder mockCombat ! 0) = 45
     \<and> currentHp (initiativeOrder (dmg_combat res) ! 0) = 0
     \<and> tempHp (initiativeOrder (dmg_combat res) ! 0) = 0"
  by (simp add: applyDamage_def mockCombat_fields mockHero_fields depleteTempHp_def Let_def)

text \<open>
  C10. For a target id present in the combat, \<^verbatim>\<open>applyHealing\<close> succeeds and changes only the
  first combatant with that id. Its HP after the healing is
  \<open>min maxHp (currentHp + amount)\<close>, and its status is \<open>active\<close> whenever that is above 0,
  whatever the status was (\<open>fled\<close> and \<open>defeated\<close> included); when it is not above 0 the
  status stays what it was.
\<close>

theorem applyHealing_status:
  assumes "targetId \<in> set (map cid (initiativeOrder combat))"
  shows "\<exists>res i. applyHealing combat targetId amount = Inr res
     \<and> findIndex (\<lambda>c. cid c = targetId) (initiativeOrder combat) = Some i
     \<and> i < length (initiativeOrder combat)
     \<and> length (initiativeOrder (heal_combat res)) = length (initiativeOrder combat)
     \<and> cid (initiativeOrder (heal_combat res) ! i) = targetId
     \<and> currentHp (initiativeOrder (heal_combat res) ! i) =
         min (maxHp (initiativeOrder combat ! i)) (currentHp (initiativeOrder combat ! i) + amount)
     \<and> status (initiativeOrder (heal_combat res) ! i) =
         (if min (maxHp (initiativeOrder combat ! i))
                 (currentHp (initiativeOrder combat ! i) + amount) > 0
          then active
          else status (initiativeOrder combat ! i))
     \<and> (\<forall>j < length (initiativeOrder combat). j \<noteq> i \<longrightarrow>
           initiativeOrder (heal_combat res) ! j = initiativeOrder combat ! j)"
proof -
  from assms have "\<exists>x \<in> set (initiativeOrder combat). cid x = targetId" by auto
  then obtain i where i: "findIndex (\<lambda>c. cid c = targetId) (initiativeOrder combat) = Some i"
    using findIndex_present [of "initiativeOrder combat" "\<lambda>c. cid c = targetId"] by blast
  have lt: "i < length (initiativeOrder combat)" by (rule findIndex_Some_lt [OF i])
  have id: "cid (initiativeOrder combat ! i) = targetId" by (rule findIndex_Some_sat [OF i])
  show ?thesis using lt id by (simp add: applyHealing_def i Let_def)
qed

theorem applyHealing_status_witness:
  "''hero'' \<in> set (map cid (initiativeOrder (flee mockCombat ''hero'')))
   \<and> status (initiativeOrder (flee mockCombat ''hero'') ! 0) = fled
   \<and> (\<exists>res. applyHealing (flee mockCombat ''hero'') ''hero'' 5 = Inr res
        \<and> cid (initiativeOrder (heal_combat res) ! 0) = ''hero''
        \<and> currentHp (initiativeOrder (heal_combat res) ! 0) = 45
        \<and> status (initiativeOrder (heal_combat res) ! 0) = active
        \<and> initiativeOrder (heal_combat res) ! 1 = mockGoblin)
   \<and> ''goblin_1'' \<in> set (map cid (initiativeOrder downedGoblinCombat))
   \<and> (\<exists>res. applyHealing downedGoblinCombat ''goblin_1'' 0 = Inr res
        \<and> currentHp (initiativeOrder (heal_combat res) ! 1) = 0
        \<and> status (initiativeOrder (heal_combat res) ! 1) = defeated)"
proof -
  let ?c = "flee mockCombat ''hero''"
  have order: "initiativeOrder ?c = [mockHero\<lparr>status := fled\<rparr>, mockGoblin]"
    by (simp add: flee_def mockCombat_fields mockHero_fields)
  have h: "''hero'' \<in> set (map cid (initiativeOrder ?c))"
    by (simp add: order mockHero_fields)
  from applyHealing_status [OF h, of 5] obtain res i where
    r: "applyHealing ?c ''hero'' 5 = Inr res"
    and i: "findIndex (\<lambda>c. cid c = ''hero'') (initiativeOrder ?c) = Some i"
    and c: "cid (initiativeOrder (heal_combat res) ! i) = ''hero''"
    and hp: "currentHp (initiativeOrder (heal_combat res) ! i) =
         min (maxHp (initiativeOrder ?c ! i)) (currentHp (initiativeOrder ?c ! i) + 5)"
    and s: "status (initiativeOrder (heal_combat res) ! i) =
         (if min (maxHp (initiativeOrder ?c ! i)) (currentHp (initiativeOrder ?c ! i) + 5) > 0
          then active else status (initiativeOrder ?c ! i))"
    and o: "\<forall>j < length (initiativeOrder ?c). j \<noteq> i \<longrightarrow>
           initiativeOrder (heal_combat res) ! j = initiativeOrder ?c ! j"
    by blast
  have i0: "i = 0" using i by (simp add: order mockHero_fields)
  have 1: "\<exists>res. applyHealing ?c ''hero'' 5 = Inr res
        \<and> cid (initiativeOrder (heal_combat res) ! 0) = ''hero''
        \<and> currentHp (initiativeOrder (heal_combat res) ! 0) = 45
        \<and> status (initiativeOrder (heal_combat res) ! 0) = active
        \<and> initiativeOrder (heal_combat res) ! 1 = mockGoblin"
    using r c hp s o by (auto simp: i0 order mockHero_fields)
  let ?d = "downedGoblinCombat"
  have order': "initiativeOrder ?d = [mockHero, mockGoblin\<lparr>currentHp := 0, status := defeated\<rparr>]"
    by (simp add: downedGoblinCombat_def)
  have g: "''goblin_1'' \<in> set (map cid (initiativeOrder ?d))"
    by (simp add: order' mockGoblin_fields)
  from applyHealing_status [OF g, of 0] obtain res' k where
    r': "applyHealing ?d ''goblin_1'' 0 = Inr res'"
    and k: "findIndex (\<lambda>c. cid c = ''goblin_1'') (initiativeOrder ?d) = Some k"
    and hp': "currentHp (initiativeOrder (heal_combat res') ! k) =
         min (maxHp (initiativeOrder ?d ! k)) (currentHp (initiativeOrder ?d ! k) + 0)"
    and s': "status (initiativeOrder (heal_combat res') ! k) =
         (if min (maxHp (initiativeOrder ?d ! k)) (currentHp (initiativeOrder ?d ! k) + 0) > 0
          then active else status (initiativeOrder ?d ! k))"
    by blast
  have k1: "k = 1" using k by (simp add: order' mockHero_fields mockGoblin_fields)
  have 2: "\<exists>res. applyHealing ?d ''goblin_1'' 0 = Inr res
        \<and> currentHp (initiativeOrder (heal_combat res) ! 1) = 0
        \<and> status (initiativeOrder (heal_combat res) ! 1) = defeated"
    using r' hp' s' by (auto simp: k1 order' mockGoblin_fields)
  show ?thesis using h 1 g 2 by (simp add: order)
qed

section \<open>Hit point and movement bounds\<close>

lemma list_all_update:
  "list_all P xs \<Longrightarrow> P x \<Longrightarrow> list_all P (xs[i := x])"
  by (induction xs arbitrary: i) (auto split: nat.splits)

lemma list_all_nth: "list_all P xs \<Longrightarrow> i < length xs \<Longrightarrow> P (xs ! i)"
  by (simp add: list_all_length)

lemma boundsOk_processEndOfRound: "boundsOk c \<Longrightarrow> boundsOk (processEndOfRound c)"
  by (simp add: boundsOk_def processEndOfRound_def Let_def list_all_iff combatantBounds_def)


lemma boundsOk_advanceTurn:
  assumes "advanceTurn c = (s, c')" and "initiativeOrder c \<noteq> []" and "boundsOk c"
  shows "boundsOk c'"
proof -
  obtain j it' nr' uc' where
    f: "findNextActive (length (initiativeOrder c)) (currentTurnIndex c) 0 (round c) c
          = (j, it', nr', uc')"
    by (metis prod_cases4)
  have len: "0 < length (initiativeOrder c)" using assms(2) by simp
  note P = findNextActive_props [OF f len refl]
  have b: "boundsOk uc'"
    by (rule findNextActive_preserves [OF f boundsOk_processEndOfRound assms(3)])
  have j: "j < length (initiativeOrder uc')" using P by simp
  have bj: "combatantBounds (initiativeOrder uc' ! j)"
    using b j by (simp add: boundsOk_def list_all_length)
  have c': "c' = uc'\<lparr>round := nr', currentTurnIndex := j,
          initiativeOrder := (initiativeOrder uc')[j :=
            (initiativeOrder uc' ! j)\<lparr>turnResources :=
               createDefaultTurnResources (speed (initiativeOrder uc' ! j))\<rparr>]\<rparr>"
    using assms(1) by (simp add: advanceTurn_unfold [OF f])
  show ?thesis
    unfolding c' boundsOk_def using b bj
    by (simp add: boundsOk_def list_all_update combatantBounds_def createDefaultTurnResources_def)
qed

lemma boundsOk_nextTurn: "boundsOk c \<Longrightarrow> boundsOk (nextTurn c)"
proof (induction c rule: nextTurn.induct)
  case (1 combat)
  show ?case
  proof (cases "isActive combat")
    case False
    then show ?thesis using "1.prems" by (simp add: nextTurn_inactive)
  next
    case act: True
    show ?thesis
    proof (cases "filter (\<lambda>x. status x = active) (initiativeOrder combat) = []")
      case True
      then show ?thesis using "1.prems" act by (simp add: nextTurn_none_active boundsOk_def)
    next
      case False
      obtain s c' where a: "advanceTurn combat = (s, c')" by (metis surj_pair)
      have ne: "initiativeOrder combat \<noteq> []" using False by auto
      have b: "boundsOk c'" by (rule boundsOk_advanceTurn [OF a ne "1.prems"])
      have len: "length (filter (\<lambda>c. status c = active) (initiativeOrder combat)) \<noteq> 0"
        using False by simp
      show ?thesis
      proof (cases s)
        case True
        have "boundsOk (nextTurn c')"
          using "1.IH" [OF _ len a [symmetric] True b] act by simp
        then show ?thesis using nextTurn_step [OF act False a] True by simp
      next
        case False
        then show ?thesis using nextTurn_step [OF act \<open>filter _ _ \<noteq> []\<close> a] b by simp
      qed
    qed
  qed
qed

lemma nth_findIndex_bounds:
  "boundsOk c \<Longrightarrow> findIndex P (initiativeOrder c) = Some i \<Longrightarrow>
   combatantBounds (initiativeOrder c ! i)"
  by (simp add: boundsOk_def list_all_length findIndex_Some_lt)

lemma boundsOk_applyDamage:
  assumes "boundsOk c" and "applyDamage c targetId amount = Inr res"
  shows "boundsOk (dmg_combat res)"
proof -
  obtain i where i: "findIndex (\<lambda>x. cid x = targetId) (initiativeOrder c) = Some i"
    using assms(2) by (auto simp: applyDamage_def split: option.splits)
  note b = nth_findIndex_bounds [OF assms(1) i]
  obtain r a t' where d: "depleteTempHp (max 0 amount) (tempHp (initiativeOrder c ! i)) = (r, a, t')"
    by (metis prod_cases3)
  have t': "0 \<le> t'" and r: "0 \<le> r"
    using d b by (auto simp: depleteTempHp_def combatantBounds_def split: if_splits)
  show ?thesis
    using assms t' r b
    by (auto simp: applyDamage_def i d Let_def boundsOk_def combatantBounds_def
             intro!: list_all_update)
qed

lemma boundsOk_applyHealing:
  assumes "boundsOk c" and "applyHealing c targetId amount = Inr res" and "0 \<le> amount"
  shows "boundsOk (heal_combat res)"
proof -
  obtain i where i: "findIndex (\<lambda>x. cid x = targetId) (initiativeOrder c) = Some i"
    using assms(2) by (auto simp: applyHealing_def split: option.splits)
  note b = nth_findIndex_bounds [OF assms(1) i]
  show ?thesis
    using assms b
    by (auto simp: applyHealing_def i Let_def boundsOk_def combatantBounds_def
             intro!: list_all_update)
qed

lemma boundsOk_addCondition:
  assumes "boundsOk c" and "addCondition c targetId condition = Inr c'"
  shows "boundsOk c'"
proof -
  obtain i where i: "findIndex (\<lambda>x. cid x = targetId) (initiativeOrder c) = Some i"
    using assms(2) by (auto simp: addCondition_def split: option.splits)
  note b = nth_findIndex_bounds [OF assms(1) i]
  show ?thesis
    using assms b
    by (auto simp: addCondition_def i Let_def boundsOk_def combatantBounds_def
             split: option.splits if_splits intro!: list_all_update)
qed

lemma boundsOk_removeCondition:
  assumes "boundsOk c" and "removeCondition c targetId conditionName = Inr c'"
  shows "boundsOk c'"
proof -
  obtain i where i: "findIndex (\<lambda>x. cid x = targetId) (initiativeOrder c) = Some i"
    using assms(2) by (auto simp: removeCondition_def split: option.splits)
  note b = nth_findIndex_bounds [OF assms(1) i]
  show ?thesis
    using assms b
    by (auto simp: removeCondition_def i Let_def boundsOk_def combatantBounds_def
             intro!: list_all_update)
qed

lemma boundsOk_resources:
  assumes "boundsOk c"
  shows "boundsOk (useAction c k)" "boundsOk (useBonusAction c k)" "boundsOk (useReaction c k)"
    "boundsOk (useMovement c k amount)" "boundsOk (flee c k)"
    "0 \<le> amount \<Longrightarrow> boundsOk (addTempHp c k amount)"
    "boundsOk (addEnvironmentalEffect c e)" "boundsOk (removeEnvironmentalEffect c e)"
    "boundsOk (end_combat (endCombat c))"
  using assms nth_findIndex_bounds [OF assms, of "\<lambda>x. cid x = k"]
  by (auto simp: useAction_def useBonusAction_def useReaction_def useMovement_def flee_def
        addTempHp_def addEnvironmentalEffect_def removeEnvironmentalEffect_def endCombat_def
        Let_def boundsOk_def combatantBounds_def
        split: option.splits intro!: list_all_update)

lemma boundsOk_mockCombat: "boundsOk mockCombat"
  by (simp add: boundsOk_def combatantBounds_def mockCombat_fields mockHero_def mockGoblin_def
        createCombatantFromCharacter_def createCombatantFromMonster_def mockCharacter_def
        mockMonster_def createDefaultTurnResources_def)

text \<open>
  C7. Every operation of the combat state machine keeps the per-combatant bounds
  \<open>0 \<le> currentHp \<le> maxHp\<close>, \<open>tempHp \<ge> 0\<close> and \<open>movementRemaining \<ge> 0\<close> (with \<open>speed \<ge> 0\<close>):
  if all combatants satisfy them, the healing or temporary-HP amount is not negative,
  and the operation returns a combat, then all combatants of that combat satisfy them.
  The damage and the movement spent may be any integer.
\<close>

theorem operations_preserve_bounds:
  assumes "boundsOk combat" and "healingAmountOk operation"
    and "applyOp operation combat = Inr combat'"
  shows "boundsOk combat'"
proof (cases operation)
  case NextTurn
  then show ?thesis using assms boundsOk_nextTurn by auto
next
  case ProcessEndOfRound
  then show ?thesis using assms boundsOk_processEndOfRound by auto
next
  case (ApplyDamage targetId amount)
  then obtain res where "applyDamage combat targetId amount = Inr res" "combat' = dmg_combat res"
    using assms(3) by (cases "applyDamage combat targetId amount") auto
  then show ?thesis using boundsOk_applyDamage [OF assms(1)] by simp
next
  case (ApplyHealing targetId amount)
  then obtain res where "applyHealing combat targetId amount = Inr res" "combat' = heal_combat res"
    using assms(3) by (cases "applyHealing combat targetId amount") auto
  then show ?thesis using boundsOk_applyHealing [OF assms(1)] assms(2) ApplyHealing by simp
next
  case (AddCondition targetId condition)
  then show ?thesis using assms boundsOk_addCondition by simp
next
  case (RemoveCondition targetId conditionName)
  then show ?thesis using assms boundsOk_removeCondition by simp
qed (use assms boundsOk_resources [OF assms(1)] in auto)

theorem operations_preserve_bounds_witness:
  "boundsOk mockCombat \<and> healingAmountOk (UseMovement ''hero'' 50)
   \<and> applyOp (UseMovement ''hero'' 50) mockCombat = Inr (useMovement mockCombat ''hero'' 50)
   \<and> boundsOk (useMovement mockCombat ''hero'' 50)"
  using operations_preserve_bounds [OF boundsOk_mockCombat,
          of "UseMovement ''hero'' 50" "useMovement mockCombat ''hero'' 50"]
        boundsOk_mockCombat
  by simp

section \<open>One condition per name\<close>

lemma sleepCondition_name: "cond_name sleepCondition = unconscious"
  by (simp add: sleepCondition_def)

lemma cond_name_tick: "cond_name (tickCondition x) = cond_name x"
  by (simp add: tickCondition_def split: option.splits)

lemma distinct_names_tick_filter:
  "distinct (map cond_name xs) \<Longrightarrow>
   distinct (map cond_name (filter P (map tickCondition xs)))"
  by (rule distinct_map_filter) (simp add: comp_def cond_name_tick)

lemma conditionsUnique_processEndOfRound:
  "conditionsUnique c \<Longrightarrow> conditionsUnique (processEndOfRound c)"
  by (simp add: conditionsUnique_def processEndOfRound_def Let_def list_all_iff
        namesDistinct_def distinct_names_tick_filter)

lemma conditionsUnique_advanceTurn:
  assumes "advanceTurn c = (s, c')" and "initiativeOrder c \<noteq> []" and "conditionsUnique c"
  shows "conditionsUnique c'"
proof -
  obtain j it' nr' uc' where
    f: "findNextActive (length (initiativeOrder c)) (currentTurnIndex c) 0 (round c) c
          = (j, it', nr', uc')"
    by (metis prod_cases4)
  have len: "0 < length (initiativeOrder c)" using assms(2) by simp
  note P = findNextActive_props [OF f len refl]
  have b: "conditionsUnique uc'"
    by (rule findNextActive_preserves [OF f conditionsUnique_processEndOfRound assms(3)])
  have j: "j < length (initiativeOrder uc')" using P by simp
  have bj: "namesDistinct (initiativeOrder uc' ! j)"
    using b j by (simp add: conditionsUnique_def list_all_length)
  have c': "c' = uc'\<lparr>round := nr', currentTurnIndex := j,
          initiativeOrder := (initiativeOrder uc')[j :=
            (initiativeOrder uc' ! j)\<lparr>turnResources :=
               createDefaultTurnResources (speed (initiativeOrder uc' ! j))\<rparr>]\<rparr>"
    using assms(1) by (simp add: advanceTurn_unfold [OF f])
  show ?thesis
    unfolding c' conditionsUnique_def using b bj
    by (simp add: conditionsUnique_def list_all_update namesDistinct_def)
qed

lemma conditionsUnique_nextTurn:
  assumes "conditionsUnique c"
  shows "conditionsUnique (nextTurn c)"
proof (rule nextTurn_preserves [where I = conditionsUnique])
  fix d s d'
  assume "advanceTurn d = (s, d')" "initiativeOrder d \<noteq> []" "conditionsUnique d"
  then show "conditionsUnique d'" by (rule conditionsUnique_advanceTurn)
next
  fix d
  assume "conditionsUnique d"
  then show "conditionsUnique (d\<lparr>isActive := False\<rparr>)" by (simp add: conditionsUnique_def)
next
  show "conditionsUnique c" by (rule assms)
qed

lemma nth_findIndex_unique:
  "conditionsUnique c \<Longrightarrow> findIndex P (initiativeOrder c) = Some i \<Longrightarrow>
   namesDistinct (initiativeOrder c ! i)"
  by (simp add: conditionsUnique_def list_all_length findIndex_Some_lt)

lemma conditionsUnique_addCondition:
  assumes "conditionsUnique c" and "addCondition c targetId condition = Inr c'"
  shows "conditionsUnique c'"
proof -
  obtain i where i: "findIndex (\<lambda>x. cid x = targetId) (initiativeOrder c) = Some i"
    using assms(2) by (auto simp: addCondition_def split: option.splits)
  note b = nth_findIndex_unique [OF assms(1) i]
  let ?t = "initiativeOrder c ! i"
  show ?thesis
  proof (cases "findIndex (\<lambda>x. cond_name x = cond_name condition) (conditions ?t)")
    case None
    then have "cond_name condition \<notin> set (map cond_name (conditions ?t))"
      by (auto simp: findIndex_None_iff)
    then show ?thesis
      using assms b None
      by (auto simp: addCondition_def i Let_def conditionsUnique_def namesDistinct_def
               intro!: list_all_update)
  next
    case (Some k)
    have k: "k < length (conditions ?t)" by (rule findIndex_Some_lt [OF Some])
    have n: "cond_name (conditions ?t ! k) = cond_name condition"
      by (rule findIndex_Some_sat [OF Some])
    have "map cond_name ((conditions ?t)[k := condition]) = map cond_name (conditions ?t)"
      using k n by (simp add: map_update list_update_same_conv)
    then show ?thesis
      using assms b Some
      by (auto simp: addCondition_def i Let_def conditionsUnique_def namesDistinct_def
               split: if_splits intro!: list_all_update)
  qed
qed

lemma conditionsUnique_removeCondition:
  assumes "conditionsUnique c" and "removeCondition c targetId conditionName = Inr c'"
  shows "conditionsUnique c'"
proof -
  obtain i where i: "findIndex (\<lambda>x. cid x = targetId) (initiativeOrder c) = Some i"
    using assms(2) by (auto simp: removeCondition_def split: option.splits)
  note b = nth_findIndex_unique [OF assms(1) i]
  show ?thesis
    using assms b
    by (auto simp: removeCondition_def i Let_def conditionsUnique_def namesDistinct_def
          distinct_map_filter intro!: list_all_update)
qed

lemma conditionsUnique_applyHealing:
  assumes "conditionsUnique c" and "applyHealing c targetId amount = Inr res"
  shows "conditionsUnique (heal_combat res)"
proof -
  obtain i where i: "findIndex (\<lambda>x. cid x = targetId) (initiativeOrder c) = Some i"
    using assms(2) by (auto simp: applyHealing_def split: option.splits)
  note b = nth_findIndex_unique [OF assms(1) i]
  show ?thesis
    using assms b
    by (auto simp: applyHealing_def i Let_def conditionsUnique_def namesDistinct_def
          distinct_map_filter intro!: list_all_update)
qed

lemma conditionsUnique_resources:
  assumes "conditionsUnique c"
  shows "conditionsUnique (useAction c k)" "conditionsUnique (useBonusAction c k)"
    "conditionsUnique (useReaction c k)"
    "conditionsUnique (useMovement c k amount)" "conditionsUnique (flee c k)"
    "conditionsUnique (addTempHp c k amount)"
    "conditionsUnique (addEnvironmentalEffect c e)"
    "conditionsUnique (removeEnvironmentalEffect c e)"
    "conditionsUnique (end_combat (endCombat c))"
  using assms nth_findIndex_unique [OF assms, of "\<lambda>x. cid x = k"]
  by (auto simp: useAction_def useBonusAction_def useReaction_def useMovement_def flee_def
        addTempHp_def addEnvironmentalEffect_def removeEnvironmentalEffect_def endCombat_def
        Let_def conditionsUnique_def namesDistinct_def
        split: option.splits intro!: list_all_update)

lemma other_operations_keep_conditions_unique:
  assumes "conditionsUnique combat" and "\<not> isApplyDamage operation"
    and "applyOp operation combat = Inr combat'"
  shows "conditionsUnique combat'"
proof (cases operation)
  case NextTurn
  then show ?thesis using assms conditionsUnique_nextTurn by auto
next
  case ProcessEndOfRound
  then show ?thesis using assms conditionsUnique_processEndOfRound by auto
next
  case (ApplyDamage targetId amount)
  then show ?thesis using assms(2) by simp
next
  case (ApplyHealing targetId amount)
  then obtain res where "applyHealing combat targetId amount = Inr res" "combat' = heal_combat res"
    using assms(3) by (cases "applyHealing combat targetId amount") auto
  then show ?thesis using conditionsUnique_applyHealing [OF assms(1)] by simp
next
  case (AddCondition targetId condition)
  then show ?thesis using assms conditionsUnique_addCondition by simp
next
  case (RemoveCondition targetId conditionName)
  then show ?thesis using assms conditionsUnique_removeCondition by simp
qed (use assms conditionsUnique_resources [OF assms(1)] in auto)

text \<open>\<^verbatim>\<open>applyDamage\<close> keeps the invariant too, unless it downs a player who already carries
  an \<open>unconscious\<close> condition.\<close>

lemma conditionsUnique_applyDamage:
  assumes "conditionsUnique c" and "applyDamage c targetId amount = Inr res"
    and "findIndex (\<lambda>x. cid x = targetId) (initiativeOrder c) = Some i"
    and "\<not> wasDowned res \<or> unconscious \<notin> set (map cond_name (conditions (initiativeOrder c ! i)))"
  shows "conditionsUnique (dmg_combat res)"
proof -
  note b = nth_findIndex_unique [OF assms(1,3)]
  obtain r a t' where d: "depleteTempHp (max 0 amount) (tempHp (initiativeOrder c ! i)) = (r, a, t')"
    by (metis prod_cases3)
  show ?thesis
    using assms(1,2,4) b
    by (auto simp: applyDamage_def assms(3) d Let_def conditionsUnique_def namesDistinct_def
          intro!: list_all_update)
qed

text \<open>
  C3. The claim: no operation leaves a combatant with two conditions of the same name.
  Here the hero of the tests is put to sleep with \<^verbatim>\<open>addCondition\<close> (an \<open>unconscious\<close>
  condition for 10 rounds), which keeps the invariant, and is then hit for 45, all the HP
  the hero has: \<^verbatim>\<open>applyDamage\<close> appends a second \<open>unconscious\<close> condition without looking
  for the one that is there.
\<close>

theorem applyDamage_stacks_unconscious:
  "addCondition mockCombat ''hero'' sleepCondition = Inr asleepCombat
   \<and> conditionsUnique asleepCombat
   \<and> (\<exists>res. applyDamage asleepCombat ''hero'' 45 = Inr res
        \<and> map cond_name (conditions (initiativeOrder (dmg_combat res) ! 0))
             = [unconscious, unconscious]
        \<and> \<not> conditionsUnique (dmg_combat res))"
proof (intro conjI)
  show "addCondition mockCombat ''hero'' sleepCondition = Inr asleepCombat"
    by (simp add: addCondition_def asleepCombat_def mockCombat_fields mockHero_fields Let_def)
  show "conditionsUnique asleepCombat"
    by (simp add: conditionsUnique_def namesDistinct_def asleepCombat_def
          mockHero_fields mockGoblin_fields)
  show "\<exists>res. applyDamage asleepCombat ''hero'' 45 = Inr res
      \<and> map cond_name (conditions (initiativeOrder (dmg_combat res) ! 0))
           = [unconscious, unconscious]
      \<and> \<not> conditionsUnique (dmg_combat res)"
    by (simp add: applyDamage_def asleepCombat_def mockHero_fields depleteTempHp_def Let_def
          conditionsUnique_def namesDistinct_def sleepCondition_name)
qed

section \<open>A full pass through the initiative order\<close>

lemma findNextActive_all_active:
  assumes "0 < len" and "list_all (\<lambda>c. status c = active) (initiativeOrder uc)"
    and "len = length (initiativeOrder uc)"
  shows "findNextActive len i it nr uc =
     (let i' = (i + 1) mod len;
          uc' = (if i' = 0 then processEndOfRound uc else uc)
      in (i', it + 1, if i' = 0 then round uc' else nr, uc'))"
proof -
  let ?i' = "(i + 1) mod len"
  let ?uc' = "if ?i' = 0 then processEndOfRound uc else uc"
  have lt: "?i' < length (initiativeOrder ?uc')" using assms by simp
  have "map status (initiativeOrder ?uc') = map status (initiativeOrder uc)" by simp
  then have "status (initiativeOrder ?uc' ! ?i') = status (initiativeOrder uc ! ?i')"
    using lt by (metis length_map nth_map)
  also have "\<dots> = active"
    using assms lt by (simp add: list_all_length)
  finally have st: "status (initiativeOrder ?uc' ! ?i') = active" .
  show ?thesis
    by (subst findNextActive.simps) (simp only: Let_def st, simp)
qed

lemma tick_keep_afterOneRound:
  "filter keepCondition (map tickCondition cs) = conditionsAfterOneRound cs"
proof (induction cs)
  case Nil
  then show ?case by (simp add: conditionsAfterOneRound_def List.map_filter_simps)
next
  case (Cons c cs)
  have "(if keepCondition (tickCondition c) then [tickCondition c] else [])
      = (case afterOneRound c of None \<Rightarrow> [] | Some x \<Rightarrow> [x])"
    by (auto simp: keepCondition_def tickCondition_def afterOneRound_def split: option.splits)
  then show ?case
    using Cons by (auto simp: conditionsAfterOneRound_def List.map_filter_simps split: option.splits if_splits)
qed

lemma nextTurn_all_active_eq:
  assumes "isActive c" and "initiativeOrder c \<noteq> []" and "allActive c" and "noSurprisePending c"
  shows "nextTurn c =
     (if (currentTurnIndex c + 1) mod length (initiativeOrder c) = 0
      then (processEndOfRound c)\<lparr>currentTurnIndex := 0,
             initiativeOrder := (initiativeOrder (processEndOfRound c))[0 :=
               resetTurn (initiativeOrder (processEndOfRound c) ! 0)]\<rparr>
      else c\<lparr>currentTurnIndex := (currentTurnIndex c + 1) mod length (initiativeOrder c),
             initiativeOrder := (initiativeOrder c)
               [(currentTurnIndex c + 1) mod length (initiativeOrder c) :=
                  resetTurn (initiativeOrder c !
                    ((currentTurnIndex c + 1) mod length (initiativeOrder c)))]\<rparr>)"
proof -
  let ?n = "length (initiativeOrder c)"
  let ?i' = "(currentTurnIndex c + 1) mod ?n"
  let ?uc' = "if ?i' = 0 then processEndOfRound c else c"
  have len: "0 < ?n" using assms(2) by simp
  have all: "list_all (\<lambda>c. status c = active) (initiativeOrder c)"
    using assms(3) by (simp add: allActive_def)
  have f: "findNextActive ?n (currentTurnIndex c) 0 (round c) c =
      (?i', 1, round ?uc', ?uc')"
    using findNextActive_all_active [OF len all refl, of "currentTurnIndex c" 0 "round c"]
    by (simp add: Let_def)
  have filt: "filter (\<lambda>x. status x = active) (initiativeOrder c) \<noteq> []"
    using all assms(2) by (cases "initiativeOrder c") auto
  have ns: "\<not> (round ?uc' = 1 \<and>
      cid (initiativeOrder ?uc' ! ?i') \<in> set (surprisedCombatantIds ?uc'))"
    using assms(4) by (auto simp: noSurprisePending_def)
  let ?c' = "?uc'\<lparr>round := round ?uc', currentTurnIndex := ?i',
          initiativeOrder := (initiativeOrder ?uc')[?i' :=
            (initiativeOrder ?uc' ! ?i')\<lparr>turnResources :=
               createDefaultTurnResources (speed (initiativeOrder ?uc' ! ?i'))\<rparr>]\<rparr>"
  have a: "advanceTurn c = (False, ?c')"
    using ns by (simp only: advanceTurn_unfold [OF f])
  have nt: "nextTurn c = ?c'"
    using nextTurn_step [OF assms(1) filt a] by simp
  show ?thesis unfolding nt by (simp add: resetTurn_def)
qed


lemma nextTurn_partial_pass_state:
  assumes "isActive c" and "allActive c" and "noSurprisePending c"
    and "currentTurnIndex c = 0" and "k < length (initiativeOrder c)"
  shows "isActive ((nextTurn ^^ k) c) \<and> allActive ((nextTurn ^^ k) c)
    \<and> noSurprisePending ((nextTurn ^^ k) c)
    \<and> currentTurnIndex ((nextTurn ^^ k) c) = k
    \<and> round ((nextTurn ^^ k) c) = round c
    \<and> combat_id ((nextTurn ^^ k) c) = combat_id c
    \<and> surprisedCombatantIds ((nextTurn ^^ k) c) = surprisedCombatantIds c
    \<and> environmentalEffects ((nextTurn ^^ k) c) = environmentalEffects c
    \<and> length (initiativeOrder ((nextTurn ^^ k) c)) = length (initiativeOrder c)
    \<and> (\<forall>i < length (initiativeOrder c).
          initiativeOrder ((nextTurn ^^ k) c) ! i =
            (if 0 < i \<and> i \<le> k then resetTurn (initiativeOrder c ! i)
             else initiativeOrder c ! i))"
  using assms(5)
proof (induction k)
  case 0
  then show ?case using assms by simp
next
  case (Suc k)
  let ?d = "(nextTurn ^^ k) c"
  have IH: "isActive ?d" "allActive ?d" "noSurprisePending ?d"
    "currentTurnIndex ?d = k" "round ?d = round c" "combat_id ?d = combat_id c"
    "surprisedCombatantIds ?d = surprisedCombatantIds c"
    "environmentalEffects ?d = environmentalEffects c"
    "length (initiativeOrder ?d) = length (initiativeOrder c)"
    "\<forall>i < length (initiativeOrder c).
          initiativeOrder ?d ! i =
            (if 0 < i \<and> i \<le> k then resetTurn (initiativeOrder c ! i)
             else initiativeOrder c ! i)"
    using Suc by simp_all
  have ne: "initiativeOrder ?d \<noteq> []" using IH(9) Suc.prems by auto
  have m: "(currentTurnIndex ?d + 1) mod length (initiativeOrder ?d) = Suc k"
    using IH(4,9) Suc.prems by simp
  have eq: "nextTurn ?d = ?d\<lparr>currentTurnIndex := Suc k,
      initiativeOrder := (initiativeOrder ?d)[Suc k := resetTurn (initiativeOrder ?d ! Suc k)]\<rparr>"
    using nextTurn_all_active_eq [OF IH(1) ne IH(2,3)] unfolding m by simp
  have st: "status (resetTurn (initiativeOrder ?d ! Suc k)) = active"
    using IH(2,9) Suc.prems by (simp add: allActive_def list_all_length resetTurn_def)
  have old: "initiativeOrder ?d ! Suc k = initiativeOrder c ! Suc k"
    using IH(10) Suc.prems by simp
  have "\<forall>i < length (initiativeOrder c).
          initiativeOrder (nextTurn ?d) ! i =
            (if 0 < i \<and> i \<le> Suc k then resetTurn (initiativeOrder c ! i)
             else initiativeOrder c ! i)"
  proof (intro allI impI)
    fix i
    assume i: "i < length (initiativeOrder c)"
    have "initiativeOrder (nextTurn ?d) ! i =
        (if i = Suc k then resetTurn (initiativeOrder ?d ! Suc k) else initiativeOrder ?d ! i)"
      using i IH(9) by (simp add: eq nth_list_update)
    also have "\<dots> = (if 0 < i \<and> i \<le> Suc k then resetTurn (initiativeOrder c ! i)
             else initiativeOrder c ! i)"
      using IH(10) i old by (cases "i = Suc k") auto
    finally show "initiativeOrder (nextTurn ?d) ! i =
            (if 0 < i \<and> i \<le> Suc k then resetTurn (initiativeOrder c ! i)
             else initiativeOrder c ! i)" .
  qed
  moreover have "allActive (nextTurn ?d)"
    using IH(2) st by (simp add: eq allActive_def list_all_update)
  ultimately show ?case
    using IH by (simp add: eq noSurprisePending_def)
qed

text \<open>
  C6 (as amended). For an active combat with at least one combatant, all of them active,
  with \<open>currentTurnIndex = 0\<close> and no surprise skip pending, calling \<^verbatim>\<open>nextTurn\<close> once per
  combatant brings \<open>currentTurnIndex\<close> back to 0 and raises \<open>round\<close> by exactly 1, and
  end-of-round processing fires exactly once across the pass: every combatant ends with the
  conditions one end of round leaves of those it had (each round-counted condition
  decremented once, or removed), and the combat that results is the one it was with the
  round raised by 1, the conditions processed once and everybody's turn resources reset.
\<close>

theorem nextTurn_full_pass:
  assumes "isActive combat" and "allActive combat" and "currentTurnIndex combat = 0"
    and "noSurprisePending combat" and "initiativeOrder combat \<noteq> []"
  shows "currentTurnIndex ((nextTurn ^^ length (initiativeOrder combat)) combat) = 0
    \<and> round ((nextTurn ^^ length (initiativeOrder combat)) combat) = round combat + 1
    \<and> map conditions (initiativeOrder ((nextTurn ^^ length (initiativeOrder combat)) combat))
        = map (\<lambda>c. conditionsAfterOneRound (conditions c)) (initiativeOrder combat)
    \<and> (nextTurn ^^ length (initiativeOrder combat)) combat
        = combat\<lparr>round := round combat + 1,
                 currentTurnIndex := 0,
                 initiativeOrder := map (\<lambda>c.
                   c\<lparr>conditions := filter keepCondition (map tickCondition (conditions c)),
                      turnResources := createDefaultTurnResources (speed c)\<rparr>)
                   (initiativeOrder combat)\<rparr>"
proof -
  let ?n = "length (initiativeOrder combat)"
  let ?target = "combat\<lparr>round := round combat + 1,
                 currentTurnIndex := 0,
                 initiativeOrder := map (\<lambda>c.
                   c\<lparr>conditions := filter keepCondition (map tickCondition (conditions c)),
                      turnResources := createDefaultTurnResources (speed c)\<rparr>)
                   (initiativeOrder combat)\<rparr>"
  obtain k where n: "?n = Suc k"
    using assms(5) by (cases "initiativeOrder combat") auto
  let ?d = "(nextTurn ^^ k) combat"
  have k: "k < ?n" using n by simp
  note P = nextTurn_partial_pass_state [OF assms(1,2,4,3) k]
  have len: "length (initiativeOrder ?d) = ?n" using P by simp
  have ne: "initiativeOrder ?d \<noteq> []" using len k by auto
  have m: "(currentTurnIndex ?d + 1) mod length (initiativeOrder ?d) = 0"
    using P n by simp
  have eq: "nextTurn ?d = (processEndOfRound ?d)\<lparr>currentTurnIndex := 0,
             initiativeOrder := (initiativeOrder (processEndOfRound ?d))[0 :=
               resetTurn (initiativeOrder (processEndOfRound ?d) ! 0)]\<rparr>"
    using nextTurn_all_active_eq [OF conjunct1 [OF P] ne] P unfolding m by simp
  have order: "initiativeOrder (nextTurn ?d) = initiativeOrder ?target"
  proof (rule nth_equalityI)
    show "length (initiativeOrder (nextTurn ?d)) = length (initiativeOrder ?target)"
      using len by (simp add: eq)
  next
    fix i
    assume "i < length (initiativeOrder (nextTurn ?d))"
    then have i: "i < ?n" using len by (simp add: eq)
    have old: "initiativeOrder ?d ! i =
        (if 0 < i \<and> i \<le> k then resetTurn (initiativeOrder combat ! i)
         else initiativeOrder combat ! i)"
      using P i by simp
    have i': "i < length (initiativeOrder ?d)" using i len by simp
    show "initiativeOrder (nextTurn ?d) ! i = initiativeOrder ?target ! i"
    proof (cases "i = 0")
      case True
      have "initiativeOrder ?d ! 0 = initiativeOrder combat ! 0" using old True by simp
      then show ?thesis
        using i i' True by (simp add: eq processEndOfRound_nth resetTurn_def len)
    next
      case False
      have "initiativeOrder ?d ! i = resetTurn (initiativeOrder combat ! i)"
        using old False i n by simp
      then show ?thesis
        using i i' False
        by (simp add: eq processEndOfRound_nth resetTurn_def nth_list_update len)
    qed
  qed
  have final: "(nextTurn ^^ ?n) combat = ?target"
  proof -
    have "(nextTurn ^^ ?n) combat = nextTurn ?d" by (simp add: n)
    moreover have "nextTurn ?d = ?target"
      using P order assms(1)
      by (intro Combat.equality) (simp_all add: eq processEndOfRound_def Let_def)
    ultimately show ?thesis by simp
  qed
  have conds: "map conditions (initiativeOrder ?target)
      = map (\<lambda>c. conditionsAfterOneRound (conditions c)) (initiativeOrder combat)"
    by (simp add: comp_def tick_keep_afterOneRound)
  show ?thesis
    unfolding final using conds by simp
qed


lemma afflictedCombat_facts:
  "isActive afflictedCombat" "allActive afflictedCombat" "currentTurnIndex afflictedCombat = 0"
  "noSurprisePending afflictedCombat" "initiativeOrder afflictedCombat \<noteq> []"
  "length (initiativeOrder afflictedCombat) = Suc (Suc 0)"
  "round afflictedCombat = 1"
  "map (\<lambda>c. conditionsAfterOneRound (conditions c)) (initiativeOrder afflictedCombat)
     = [[poisonedTwoRounds\<lparr>duration := (duration poisonedTwoRounds)\<lparr>dvalue := Some 1\<rparr>\<rparr>],
        [charmedUntilDispelled]]"
  by code_simp+

theorem nextTurn_full_pass_witness:
  "isActive afflictedCombat \<and> allActive afflictedCombat \<and> currentTurnIndex afflictedCombat = 0
   \<and> noSurprisePending afflictedCombat \<and> initiativeOrder afflictedCombat \<noteq> []
   \<and> currentTurnIndex (nextTurn (nextTurn afflictedCombat)) = 0
   \<and> round (nextTurn (nextTurn afflictedCombat)) = 2
   \<and> map conditions (initiativeOrder (nextTurn (nextTurn afflictedCombat)))
       = [[poisonedTwoRounds\<lparr>duration := (duration poisonedTwoRounds)\<lparr>dvalue := Some 1\<rparr>\<rparr>],
          [charmedUntilDispelled]]"
proof -
  note T = nextTurn_full_pass [OF afflictedCombat_facts(1,2,3,4,5)]
  have n: "(nextTurn ^^ length (initiativeOrder afflictedCombat)) afflictedCombat
      = nextTurn (nextTurn afflictedCombat)"
    by (simp add: afflictedCombat_facts(6))
  have a: "currentTurnIndex (nextTurn (nextTurn afflictedCombat)) = 0"
    using T [THEN conjunct1] by (simp only: n)
  have b: "round (nextTurn (nextTurn afflictedCombat)) = 2"
    using T [THEN conjunct2, THEN conjunct1] by (simp only: n afflictedCombat_facts(7))
  have c: "map conditions (initiativeOrder (nextTurn (nextTurn afflictedCombat)))
       = [[poisonedTwoRounds\<lparr>duration := (duration poisonedTwoRounds)\<lparr>dvalue := Some 1\<rparr>\<rparr>],
          [charmedUntilDispelled]]"
    using T [THEN conjunct2, THEN conjunct2, THEN conjunct1]
    by (simp only: n afflictedCombat_facts(8))
  show ?thesis
    using a b c afflictedCombat_facts(1,2,3,4,5) by (intro conjI)
qed

text \<open>
  C6 as stated also covers the combat with an empty initiative order, where
  ``once per combatant'' is no call at all and the round stays what it was.
\<close>

theorem nextTurn_full_pass_counterexample:
  "isActive emptyCombat \<and> allActive emptyCombat \<and> currentTurnIndex emptyCombat = 0
   \<and> noSurprisePending emptyCombat
   \<and> round ((nextTurn ^^ length (initiativeOrder emptyCombat)) emptyCombat)
        \<noteq> round emptyCombat + 1"
  by (simp add: emptyCombat_def allActive_def noSurprisePending_def)

section \<open>The random source\<close>

lemma count_residue:
  assumes "k < r"
  shows "length (filter (\<lambda>n. n mod r = k) [0..<N]) = N div r + (if k < N mod r then 1 else 0)"
proof (induction N)
  case 0
  then show ?case by simp
next
  case (Suc N)
  have r: "0 < r" using assms by simp
  show ?case
  proof (cases "Suc (N mod r) = r")
    case True
    then have "Suc N mod r = 0" "Suc N div r = Suc (N div r)"
      by (simp_all add: mod_Suc div_Suc)
    moreover have "N mod r = k \<longleftrightarrow> \<not> k < N mod r" using True assms by auto
    ultimately show ?thesis using Suc r by auto
  next
    case False
    then have "Suc N mod r = Suc (N mod r)" "Suc N div r = N div r"
      by (simp_all add: mod_Suc div_Suc)
    then show ?thesis using Suc by auto
  qed
qed

lemma jsRem_nonneg: "0 \<le> a \<Longrightarrow> 0 < b \<Longrightarrow> jsRem a b = Some (a mod b)"
  by (cases "a = 0") (simp_all add: jsRem_def sgn_if)

lemma randomInt_word_of_nat:
  assumes "lo \<le> hi" and "n < 2 ^ 32"
  shows "randomInt lo hi (word_of_nat n) = Some (lo + int (n mod nat (hi - lo + 1)))"
proof -
  have "unat (word_of_nat n :: 32 word) = n"
    using assms(2) by (simp add: unat_of_nat)
  then have u: "uint (word_of_nat n :: 32 word) = int n"
    by (metis uint_nat)
  have pos: "0 < hi - lo + 1" using assms(1) by simp
  have "int n mod (hi - lo + 1) = int (n mod nat (hi - lo + 1))"
    using pos by (simp add: zmod_int)
  then show ?thesis
    using pos by (simp add: randomInt_def jsRem_nonneg u Let_def)
qed

lemma randomInt_in_range:
  assumes "lo \<le> hi"
  shows "\<exists>v. randomInt lo hi word = Some v \<and> lo \<le> v \<and> v \<le> hi"
proof -
  have pos: "0 < hi - lo + 1" using assms by simp
  have nn: "0 \<le> uint word" by simp
  have "uint word mod (hi - lo + 1) < hi - lo + 1" using pos by (rule pos_mod_bound)
  moreover have "0 \<le> uint word mod (hi - lo + 1)" using pos by (rule pos_mod_sign)
  ultimately show ?thesis
    using pos by (simp add: randomInt_def jsRem_nonneg Let_def)
qed

lemma wordCount_formula:
  assumes "lo \<le> hi" and "lo \<le> v" and "v \<le> hi"
  shows "wordCount lo hi v =
     2 ^ 32 div nat (hi - lo + 1) + (if nat (v - lo) < 2 ^ 32 mod nat (hi - lo + 1) then 1 else 0)"
proof -
  let ?r = "nat (hi - lo + 1)"
  let ?k = "nat (v - lo)"
  have k: "?k < ?r" using assms by simp
  have "filter (\<lambda>n. randomInt lo hi (word_of_nat n) = Some v) [0..<2 ^ 32]
      = filter (\<lambda>n. n mod ?r = ?k) [0..<2 ^ 32]"
  proof (rule filter_cong [OF refl])
    fix n :: nat
    assume "n \<in> set [0..<2 ^ 32]"
    then have n: "n < 2 ^ 32" by (simp only: set_upt atLeastLessThan_iff)
    have "lo + int (n mod ?r) = v \<longleftrightarrow> n mod ?r = ?k" using assms by auto
    then show "(randomInt lo hi (word_of_nat n) = Some v) = (n mod ?r = ?k)"
      by (simp only: randomInt_word_of_nat [OF assms(1) n] option.inject)
  qed
  then show ?thesis
    unfolding wordCount_def by (simp only: count_residue [OF k])
qed

text \<open>
  C5 (as amended). For every closed range \<open>[lo, hi]\<close>, \<^verbatim>\<open>randomInt\<close> on its cryptographic
  path returns an integer in the range, for every generator word. The outcome \<open>lo + k\<close> is
  produced by \<open>2^32 div range + 1\<close> of the \<open>2^32\<close> words when \<open>k < 2^32 mod range\<close>, and by
  \<open>2^32 div range\<close> of them otherwise; so all outcomes are produced by equally many words
  exactly when the size of the range divides \<open>2^32\<close>.
\<close>

theorem randomInt_range_and_counts:
  assumes "lo \<le> hi"
  shows "(\<forall>word. \<exists>v. randomInt lo hi word = Some v \<and> lo \<le> v \<and> v \<le> hi)
    \<and> (\<forall>v. lo \<le> v \<and> v \<le> hi \<longrightarrow>
          wordCount lo hi v =
            2 ^ 32 div nat (hi - lo + 1)
            + (if nat (v - lo) < 2 ^ 32 mod nat (hi - lo + 1) then 1 else 0))
    \<and> ((\<forall>v v'. lo \<le> v \<and> v \<le> hi \<and> lo \<le> v' \<and> v' \<le> hi \<longrightarrow>
            wordCount lo hi v = wordCount lo hi v')
         \<longleftrightarrow> nat (hi - lo + 1) dvd 2 ^ 32)"
proof (intro conjI allI impI)
  fix word
  show "\<exists>v. randomInt lo hi word = Some v \<and> lo \<le> v \<and> v \<le> hi"
    by (rule randomInt_in_range [OF assms])
next
  fix v
  assume "lo \<le> v \<and> v \<le> hi"
  then show "wordCount lo hi v =
      2 ^ 32 div nat (hi - lo + 1)
      + (if nat (v - lo) < 2 ^ 32 mod nat (hi - lo + 1) then 1 else 0)"
    using wordCount_formula [OF assms] by blast
next
  let ?r = "nat (hi - lo + 1)"
  let ?m = "(2 :: nat) ^ 32 mod ?r"
  have r: "0 < ?r" using assms by simp
  have lo: "wordCount lo hi lo = 2 ^ 32 div ?r + (if 0 < ?m then 1 else 0)"
    using wordCount_formula [OF assms, of lo] assms by simp
  have "nat (hi - lo) = ?r - 1" using assms by simp
  moreover have "?m < ?r" using r by (rule mod_less_divisor)
  ultimately have "\<not> nat (hi - lo) < ?m" by linarith
  then have hi: "wordCount lo hi hi = 2 ^ 32 div ?r"
    using wordCount_formula [OF assms, of hi] assms by simp
  show "(\<forall>v v'. lo \<le> v \<and> v \<le> hi \<and> lo \<le> v' \<and> v' \<le> hi \<longrightarrow>
            wordCount lo hi v = wordCount lo hi v') \<longleftrightarrow> ?r dvd 2 ^ 32"
  proof
    assume "\<forall>v v'. lo \<le> v \<and> v \<le> hi \<and> lo \<le> v' \<and> v' \<le> hi \<longrightarrow>
            wordCount lo hi v = wordCount lo hi v'"
    then have "wordCount lo hi lo = wordCount lo hi hi" using assms by simp
    then have "?m = 0" using lo hi by (simp split: if_splits)
    then show "?r dvd 2 ^ 32" by (simp only: dvd_eq_mod_eq_0)
  next
    assume "?r dvd 2 ^ 32"
    then have m: "?m = 0" by (simp only: dvd_eq_mod_eq_0)
    show "\<forall>v v'. lo \<le> v \<and> v \<le> hi \<and> lo \<le> v' \<and> v' \<le> hi \<longrightarrow>
            wordCount lo hi v = wordCount lo hi v'"
      using wordCount_formula [OF assms] by (simp only: m not_less_zero if_False) simp
  qed
qed

theorem randomInt_range_and_counts_witness:
  "(1 :: int) \<le> 8 \<and> (\<forall>word. \<exists>v. randomInt 1 8 word = Some v \<and> 1 \<le> v \<and> v \<le> 8)
   \<and> wordCount 1 8 3 = 536870912 \<and> wordCount 1 8 3 = wordCount 1 8 8"
  using randomInt_range_and_counts [of 1 8] by simp

text \<open>
  C5 as stated fails for the d20, the die the engine rolls most: 20 does not divide
  \<open>2^32\<close>, and a roll of 1 is produced by one generator word more than a roll of 20.
\<close>

theorem randomInt_d20_counterexample:
  "(1 :: int) \<le> 20 \<and> wordCount 1 20 1 = 214748365 \<and> wordCount 1 20 20 = 214748364"
  by (simp add: wordCount_formula)

section \<open>Initiative\<close>

lemma rollDie_20: "rollDie 20 word = Some (1 + uint word mod 20)"
  by (simp add: rollDie_def randomInt_def jsRem_nonneg Let_def)

lemma rollFor_fields:
  "res_combatantId (rollFor word c) = req_id c"
  "res_combatantName (rollFor word c) = req_name c"
  "res_modifier (rollFor word c) = dexterityModifier c"
  "res_roll (rollFor word c) = 1 + uint word mod 20"
  "res_total (rollFor word c) = res_roll (rollFor word c) + dexterityModifier c"
  by (simp_all add: rollFor_def rollDie_20)

lemma rollFor_roll_range: "1 \<le> res_roll (rollFor word c) \<and> res_roll (rollFor word c) \<le> 20"
proof -
  have "0 \<le> uint word mod 20" "uint word mod 20 < 20" by simp_all
  then show ?thesis by (simp add: rollFor_fields)
qed

lemma length_rollEach: "length (rollEach rng k cs) = length cs"
  by (induction cs arbitrary: k) simp_all

lemma nth_rollEach:
  "i < length cs \<Longrightarrow> rollEach rng k cs ! i = rollFor (rng (k + i)) (cs ! i)"
proof (induction cs arbitrary: k i)
  case Nil
  then show ?case by simp
next
  case (Cons c cs)
  then show ?case by (cases i) simp_all
qed

lemma mset_insertBy: "mset (insertBy cmp x ys) = add_mset x (mset ys)"
  by (induction ys) simp_all

lemma mset_sortBy: "mset (sortBy cmp xs) = mset xs"
  by (induction xs) (simp_all add: mset_insertBy)

lemma set_insertBy: "set (insertBy cmp x ys) = insert x (set ys)"
  by (induction ys) auto

lemma compareInitiative_le: "compareInitiative a b \<le> 0 \<longleftrightarrow> initiativeBefore a b"
  by (auto simp: compareInitiative_def initiativeBefore_def)

lemma initiativeBefore_trans:
  "initiativeBefore a b \<Longrightarrow> initiativeBefore b c \<Longrightarrow> initiativeBefore a c"
  by (auto simp: initiativeBefore_def)

lemma initiativeBefore_total: "\<not> initiativeBefore a b \<Longrightarrow> initiativeBefore b a"
  by (auto simp: initiativeBefore_def)

lemma sorted_insertBy:
  "sorted_wrt initiativeBefore ys \<Longrightarrow>
   sorted_wrt initiativeBefore (insertBy compareInitiative x ys)"
proof (induction ys)
  case Nil
  then show ?case by simp
next
  case (Cons y ys)
  show ?case
  proof (cases "initiativeBefore x y")
    case True
    then have "\<forall>z \<in> set ys. initiativeBefore x z"
      using Cons.prems initiativeBefore_trans by auto
    then show ?thesis using True Cons.prems by (simp add: compareInitiative_le)
  next
    case False
    then have "initiativeBefore y x" by (rule initiativeBefore_total)
    then show ?thesis
      using False Cons by (auto simp: compareInitiative_le set_insertBy)
  qed
qed

lemma sorted_sortBy: "sorted_wrt initiativeBefore (sortBy compareInitiative xs)"
  by (induction xs) (simp_all add: sorted_insertBy)

lemma filter_insertBy:
  "filter (sameKey t m) (insertBy compareInitiative x ys) =
     (if sameKey t m x then x # filter (sameKey t m) ys else filter (sameKey t m) ys)"
proof (induction ys)
  case Nil
  then show ?case by simp
next
  case (Cons y ys)
  have "\<not> initiativeBefore x y \<Longrightarrow> sameKey t m x \<Longrightarrow> \<not> sameKey t m y"
    by (auto simp: initiativeBefore_def sameKey_def)
  then show ?case using Cons by (auto simp: compareInitiative_le)
qed

lemma filter_sortBy:
  "filter (sameKey t m) (sortBy compareInitiative xs) = filter (sameKey t m) xs"
  by (induction xs) (simp_all add: filter_insertBy)

text \<open>
  C8. For every list of combatants, \<^verbatim>\<open>rollInitiative\<close> returns as many results as there are
  inputs; they are the results rolled for the inputs in input order (one per input, with its
  id, name and modifier), rearranged; every result has a roll from 1 to 20 and
  \<open>total = roll + modifier\<close>; the list is sorted descending by total with ties broken by
  descending modifier; and the results that agree in total and modifier are in their input
  order.
\<close>

theorem rollInitiative_sorted_stable:
  "length (rollInitiative rng combatants) = length combatants
   \<and> mset (rollInitiative rng combatants) = mset (rollEach rng 0 combatants)
   \<and> (\<forall>i < length combatants.
         res_combatantId (rollEach rng 0 combatants ! i) = req_id (combatants ! i)
         \<and> res_combatantName (rollEach rng 0 combatants ! i) = req_name (combatants ! i)
         \<and> res_modifier (rollEach rng 0 combatants ! i) = dexterityModifier (combatants ! i))
   \<and> (\<forall>r \<in> set (rollInitiative rng combatants).
         1 \<le> res_roll r \<and> res_roll r \<le> 20 \<and> res_total r = res_roll r + res_modifier r)
   \<and> sorted_wrt initiativeBefore (rollInitiative rng combatants)
   \<and> (\<forall>t m. filter (sameKey t m) (rollInitiative rng combatants)
               = filter (sameKey t m) (rollEach rng 0 combatants))"
proof (intro conjI)
  let ?raw = "rollEach rng 0 combatants"
  have m: "mset (rollInitiative rng combatants) = mset ?raw"
    by (simp add: rollInitiative_def mset_sortBy)
  show "mset (rollInitiative rng combatants) = mset ?raw" by (rule m)
  show "length (rollInitiative rng combatants) = length combatants"
    using mset_eq_length [OF m] by (simp add: length_rollEach)
  show "\<forall>i < length combatants.
         res_combatantId (?raw ! i) = req_id (combatants ! i)
         \<and> res_combatantName (?raw ! i) = req_name (combatants ! i)
         \<and> res_modifier (?raw ! i) = dexterityModifier (combatants ! i)"
    by (simp add: nth_rollEach rollFor_fields)
  show "\<forall>r \<in> set (rollInitiative rng combatants).
         1 \<le> res_roll r \<and> res_roll r \<le> 20 \<and> res_total r = res_roll r + res_modifier r"
  proof
    fix r
    assume "r \<in> set (rollInitiative rng combatants)"
    then have "r \<in> set ?raw" using mset_eq_setD [OF m] by simp
    then obtain i where i: "i < length combatants" and r: "r = ?raw ! i"
      by (auto simp: in_set_conv_nth length_rollEach)
    show "1 \<le> res_roll r \<and> res_roll r \<le> 20 \<and> res_total r = res_roll r + res_modifier r"
      unfolding r nth_rollEach [OF i]
      using rollFor_roll_range by (simp add: rollFor_fields)
  qed
  show "sorted_wrt initiativeBefore (rollInitiative rng combatants)"
    by (simp add: rollInitiative_def sorted_sortBy)
  show "\<forall>t m. filter (sameKey t m) (rollInitiative rng combatants)
               = filter (sameKey t m) ?raw"
    by (simp add: rollInitiative_def filter_sortBy)
qed


lemma mockRequests_rolled:
  "rollEach mockRng 0 mockRequests =
     [\<lparr>res_combatantId = ''a'', res_combatantName = ''Aria'', res_roll = 10,
       res_modifier = 2, res_total = 12\<rparr>,
      \<lparr>res_combatantId = ''b'', res_combatantName = ''Bram'', res_roll = 10,
       res_modifier = 2, res_total = 12\<rparr>,
      \<lparr>res_combatantId = ''c'', res_combatantName = ''Cole'', res_roll = 20,
       res_modifier = 3, res_total = 23\<rparr>]"
  by (simp add: mockRequests_def mockRng_def rollFor_def rollDie_20)

lemma mockRequests_initiative:
  "rollInitiative mockRng mockRequests =
     [\<lparr>res_combatantId = ''c'', res_combatantName = ''Cole'', res_roll = 20,
       res_modifier = 3, res_total = 23\<rparr>,
      \<lparr>res_combatantId = ''a'', res_combatantName = ''Aria'', res_roll = 10,
       res_modifier = 2, res_total = 12\<rparr>,
      \<lparr>res_combatantId = ''b'', res_combatantName = ''Bram'', res_roll = 10,
       res_modifier = 2, res_total = 12\<rparr>]"
  by (simp add: rollInitiative_def mockRequests_rolled compareInitiative_def)

theorem rollInitiative_sorted_stable_witness:
  "(1 :: nat) < length mockRequests
   \<and> res_combatantId (rollEach mockRng 0 mockRequests ! 1) = req_id (mockRequests ! 1)
   \<and> rollInitiative mockRng mockRequests ! 2 \<in> set (rollInitiative mockRng mockRequests)
   \<and> res_roll (rollInitiative mockRng mockRequests ! 2) = 10
   \<and> res_total (rollInitiative mockRng mockRequests ! 2) = 12
   \<and> map res_combatantId (rollInitiative mockRng mockRequests) = [''c'', ''a'', ''b'']
   \<and> map res_combatantId (filter (sameKey 12 2) (rollInitiative mockRng mockRequests))
        = map res_combatantId (filter (sameKey 12 2) (rollEach mockRng 0 mockRequests))"
  using rollInitiative_sorted_stable [of mockRng mockRequests]
  by (simp add: mockRequests_initiative mockRequests_rolled) (simp add: mockRequests_def)

section \<open>Starting an encounter\<close>

lemma entryOk_entries:
  "e \<in> set (initiativeEntries characters monsters allyMonsters) \<Longrightarrow> entryOk e"
  by (auto simp: initiativeEntries_def characterCombatants_def enemyCombatants_def
        allyCombatants_def entryOk_def)

lemma startCombat_unfold:
  "startCombat rng uuid characters monsters allyMonsters surprisedIds =
     (case mapResult (combatantFor (initiativeEntries characters monsters allyMonsters) uuid)
             (rollInitiative rng
                (map requestOf (initiativeEntries characters monsters allyMonsters))) of
        Inl e \<Rightarrow> Inl e
      | Inr combatants \<Rightarrow>
          Inr \<lparr>combat_id = uuid, round = 1, initiativeOrder = combatants,
               currentTurnIndex = 0, surprisedCombatantIds = surprisedIds,
               environmentalEffects = [], isActive = True\<rparr>)"
  by (simp add: startCombat_def initiativeEntries_def Let_def requestOf_def [abs_def])

lemma rollEach_ids:
  "map (\<lambda>r. (res_combatantId r, res_combatantName r)) (rollEach rng k reqs)
     = map (\<lambda>q. (req_id q, req_name q)) reqs"
  by (induction reqs arbitrary: k) (simp_all add: rollFor_fields)

lemma rollInitiative_ids:
  "mset (map (\<lambda>r. (res_combatantId r, res_combatantName r))
            (rollInitiative rng (map requestOf entries)))
     = mset (map (\<lambda>e. (ic_id e, ic_name e)) entries)"
proof -
  have "mset (rollInitiative rng (map requestOf entries))
      = mset (rollEach rng 0 (map requestOf entries))"
    by (simp add: rollInitiative_def mset_sortBy)
  then have "mset (map (\<lambda>r. (res_combatantId r, res_combatantName r))
            (rollInitiative rng (map requestOf entries)))
      = mset (map (\<lambda>r. (res_combatantId r, res_combatantName r))
            (rollEach rng 0 (map requestOf entries)))"
    by (metis mset_map)
  then show ?thesis by (simp add: rollEach_ids comp_def requestOf_def)
qed

lemma result_has_entry:
  assumes "r \<in> set (rollInitiative rng (map requestOf entries))"
  shows "\<exists>e \<in> set entries. ic_id e = res_combatantId r \<and> ic_name e = res_combatantName r"
proof -
  have "(res_combatantId r, res_combatantName r)
      \<in> set (map (\<lambda>r. (res_combatantId r, res_combatantName r))
            (rollInitiative rng (map requestOf entries)))"
    using assms by auto
  then have "(res_combatantId r, res_combatantName r)
      \<in> set (map (\<lambda>e. (ic_id e, ic_name e)) entries)"
    using rollInitiative_ids [of rng entries] by (metis set_mset_mset)
  then show ?thesis by auto
qed

lemma combatantFor_found:
  assumes "find (\<lambda>c. ic_id c = res_combatantId r) entries = Some e" and "entryOk e"
  shows "\<exists>x. combatantFor entries uuid r = Inr x \<and> cid x = ic_id e \<and> cname x = ic_name e
     \<and> ctype x = (case ic_source e of FromCharacter character \<Rightarrow> player_character
                   | FromMonster monster \<Rightarrow> ic_type e)"
  using assms(2)
  by (cases "ic_source e")
     (simp_all add: combatantFor_def assms(1) entryOk_def createCombatantFromCharacter_def
        createCombatantFromMonster_def Let_def)

lemma find_first:
  assumes "\<exists>e \<in> set entries. P e"
  shows "\<exists>e. find P entries = Some e \<and> e \<in> set entries \<and> P e"
  using assms by (induction entries) auto

lemma find_distinct:
  assumes "e \<in> set entries" and "distinct (map ic_id entries)"
  shows "find (\<lambda>c. ic_id c = ic_id e) entries = Some e"
  using assms by (induction entries) (auto simp: image_iff)

lemma mapResult_all:
  assumes "\<And>r. r \<in> set rs \<Longrightarrow> \<exists>x. f r = Inr x"
  shows "\<exists>xs. mapResult f rs = Inr xs"
  using assms
proof (induction rs)
  case Nil
  then show ?case by simp
next
  case (Cons r rs)
  obtain x where x: "f r = Inr x" using Cons.prems by auto
  obtain xs where xs: "mapResult f rs = Inr xs" using Cons by auto
  show ?case by (simp add: x xs)
qed

lemma mapResult_rel:
  "mapResult f rs = Inr xs \<Longrightarrow> list_all2 (\<lambda>r x. f r = Inr x) rs xs"
  by (induction rs arbitrary: xs) (auto split: sum.splits)

lemma startCombat_succeeds:
  "\<exists>c. startCombat rng uuid characters monsters allyMonsters surprisedIds = Inr c"
proof -
  let ?entries = "initiativeEntries characters monsters allyMonsters"
  have "\<exists>x. combatantFor ?entries uuid r = Inr x"
    if "r \<in> set (rollInitiative rng (map requestOf ?entries))" for r
  proof -
    from result_has_entry [OF that] have "\<exists>e \<in> set ?entries. ic_id e = res_combatantId r"
      by blast
    from find_first [OF this] obtain e where
      e: "find (\<lambda>c. ic_id c = res_combatantId r) ?entries = Some e" "e \<in> set ?entries"
      by blast
    from combatantFor_found [OF e(1) entryOk_entries [OF e(2)]] show ?thesis by blast
  qed
  from mapResult_all [of _ "combatantFor ?entries uuid", OF this]
  obtain xs where "mapResult (combatantFor ?entries uuid)
      (rollInitiative rng (map requestOf ?entries)) = Inr xs" by blast
  then show ?thesis by (simp add: startCombat_unfold)
qed

lemma startCombat_entry_present:
  assumes "startCombat rng uuid characters monsters allyMonsters surprisedIds = Inr c"
    and "distinct (map ic_id (initiativeEntries characters monsters allyMonsters))"
    and "e \<in> set (initiativeEntries characters monsters allyMonsters)"
  shows "\<exists>x \<in> set (initiativeOrder c). cid x = ic_id e \<and> cname x = ic_name e
     \<and> ctype x = (case ic_source e of FromCharacter character \<Rightarrow> player_character
                   | FromMonster monster \<Rightarrow> ic_type e)"
proof -
  let ?entries = "initiativeEntries characters monsters allyMonsters"
  let ?results = "rollInitiative rng (map requestOf ?entries)"
  obtain xs where xs: "mapResult (combatantFor ?entries uuid) ?results = Inr xs"
    and c: "initiativeOrder c = xs"
    using assms(1) by (auto simp: startCombat_unfold split: sum.splits)
  have "(ic_id e, ic_name e) \<in> set (map (\<lambda>e. (ic_id e, ic_name e)) ?entries)"
    using assms(3) by auto
  then have "(ic_id e, ic_name e)
      \<in> set (map (\<lambda>r. (res_combatantId r, res_combatantName r)) ?results)"
    using rollInitiative_ids [of rng ?entries] by (metis set_mset_mset)
  then obtain r where r: "r \<in> set ?results" "res_combatantId r = ic_id e" by auto
  then obtain k where k: "k < length ?results" "?results ! k = r"
    by (auto simp: in_set_conv_nth)
  note rel = mapResult_rel [OF xs]
  have kx: "k < length xs" using rel k(1) by (simp add: list_all2_lengthD)
  have fx: "combatantFor ?entries uuid r = Inr (xs ! k)"
    using list_all2_nthD [OF rel k(1)] k(2) by simp
  have "find (\<lambda>c. ic_id c = res_combatantId r) ?entries = Some e"
    using find_distinct [OF assms(3,2)] r(2) by simp
  from combatantFor_found [OF this entryOk_entries [OF assms(3)], of uuid] fx
  have "cid (xs ! k) = ic_id e \<and> cname (xs ! k) = ic_name e
     \<and> ctype (xs ! k) = (case ic_source e of FromCharacter character \<Rightarrow> player_character
                   | FromMonster monster \<Rightarrow> ic_type e)"
    by auto
  then show ?thesis using kx c by (metis nth_mem)
qed

lemma enemy_entry:
  assumes "i < length monsters"
  shows "enemyCombatants monsters ! i \<in> set (initiativeEntries characters monsters allyMonsters)"
    "ic_source (enemyCombatants monsters ! i) = FromMonster (monsters ! i)"
    "ic_type (enemyCombatants monsters ! i) = enemy"
proof -
  have "i < length (enemyCombatants monsters)" using assms by (simp add: enemyCombatants_def)
  then show "enemyCombatants monsters ! i \<in> set (initiativeEntries characters monsters allyMonsters)"
    by (simp add: initiativeEntries_def)
  show "ic_source (enemyCombatants monsters ! i) = FromMonster (monsters ! i)"
    "ic_type (enemyCombatants monsters ! i) = enemy"
    using assms by (simp_all add: enemyCombatants_def nth_enumerate_eq)
qed

section \<open>Display names of the enemies\<close>

lemma showNat_small: "n < 10 \<Longrightarrow> showNat n = [digitChar n]"
  by (subst showNat.simps) simp

lemma enemy_name:
  assumes "i < length monsters"
  shows "ic_name (enemyCombatants monsters ! i) = numberedName monsters i"
proof -
  have "1 < length (filter (\<lambda>m. mon_name m = mon_name (monsters ! i)) monsters)
      \<Longrightarrow> 1 < length monsters"
    using length_filter_le [of "\<lambda>m. mon_name m = mon_name (monsters ! i)" monsters] by linarith
  then show ?thesis
    using assms by (auto simp: enemyCombatants_def nth_enumerate_eq numberedName_def)
qed

text \<open>
  C4 (as amended). In the entries \<^verbatim>\<open>startCombat\<close> builds for the enemy monsters, an instance
  of a name that occurs more than once in the list is given the name followed by a space
  and its 1-based position in the whole monster list; a monster whose name occurs once
  keeps its name. When the ids of the participants are distinct, the encounter
  \<^verbatim>\<open>startCombat\<close> returns has an enemy combatant with the instance's id and that name.
\<close>

theorem enemy_names_numbered_by_position:
  assumes "i < length monsters"
  shows "ic_name (enemyCombatants monsters ! i) = numberedName monsters i
    \<and> (\<forall>rng uuid characters allyMonsters surprisedIds c.
          startCombat rng uuid characters monsters allyMonsters surprisedIds = Inr c
          \<and> distinct (map ic_id (initiativeEntries characters monsters allyMonsters))
          \<longrightarrow> (\<exists>x \<in> set (initiativeOrder c).
                 cid x = ic_id (enemyCombatants monsters ! i) \<and> ctype x = enemy
                 \<and> cname x = numberedName monsters i))"
proof (intro conjI allI impI)
  show "ic_name (enemyCombatants monsters ! i) = numberedName monsters i"
    by (rule enemy_name [OF assms])
next
  fix rng uuid characters allyMonsters surprisedIds c
  assume a: "startCombat rng uuid characters monsters allyMonsters surprisedIds = Inr c
          \<and> distinct (map ic_id (initiativeEntries characters monsters allyMonsters))"
  note e = enemy_entry(1) [OF assms, of characters allyMonsters]
  from startCombat_entry_present [OF conjunct1 [OF a] conjunct2 [OF a] e]
  show "\<exists>x \<in> set (initiativeOrder c).
                 cid x = ic_id (enemyCombatants monsters ! i) \<and> ctype x = enemy
                 \<and> cname x = numberedName monsters i"
    by (auto simp: enemy_entry(2,3) [OF assms] enemy_name [OF assms])
qed


lemma threeMonsters_facts:
  "numberedName threeMonsters 2 = ''Goblin 3''"
  "distinct (map ic_id (initiativeEntries [] threeMonsters []))"
  "map_sum id combatantNames (startCombat zeroRng ''combat'' [] threeMonsters [] [])
     = Inr [''Goblin 1'', ''Goblin 3'', ''Orc'']"
  by code_simp+

theorem enemy_names_numbered_by_position_witness:
  "(2 :: nat) < length threeMonsters
   \<and> ic_name (enemyCombatants threeMonsters ! 2) = ''Goblin 3''
   \<and> distinct (map ic_id (initiativeEntries [] threeMonsters []))
   \<and> map_sum id combatantNames (startCombat zeroRng ''combat'' [] threeMonsters [] [])
       = Inr [''Goblin 1'', ''Goblin 3'', ''Orc'']"
proof -
  have l: "(2 :: nat) < length threeMonsters" by (simp add: threeMonsters_def)
  from enemy_names_numbered_by_position [OF l]
  have "ic_name (enemyCombatants threeMonsters ! 2) = numberedName threeMonsters 2" by blast
  then show ?thesis using l threeMonsters_facts by simp
qed

text \<open>
  C4 as stated numbers the instances among those of the same name. For the list
  [Goblin, Orc, Goblin] the entries are named Goblin 1, Orc and Goblin 3, and so are the
  combatants of the encounter \<^verbatim>\<open>startCombat\<close> returns (here every d20 rolls a 1, and the
  goblins, with the higher modifier, come first).
\<close>

theorem enemy_names_counterexample:
  "map ic_name (enemyCombatants threeMonsters) = [''Goblin 1'', ''Orc'', ''Goblin 3'']
   \<and> map_sum id combatantNames (startCombat zeroRng ''combat'' [] threeMonsters [] [])
       = Inr [''Goblin 1'', ''Goblin 3'', ''Orc'']"
  by code_simp

section \<open>Surprise\<close>

lemma mapResult_length: "mapResult f xs = Inr ys \<Longrightarrow> length ys = length xs"
  by (induction xs arbitrary: ys) (auto split: sum.splits)

lemma startCombat_fields:
  assumes "startCombat rng uuid characters monsters allyMonsters surprisedIds = Inr c"
  shows "round c = 1" "currentTurnIndex c = 0" "isActive c"
    "surprisedCombatantIds c = surprisedIds"
  using assms by (auto simp: startCombat_def Let_def split: sum.splits)

lemma map_cid_update:
  "i < length xs \<Longrightarrow> cid x = cid (xs ! i) \<Longrightarrow> map cid (xs[i := x]) = map cid xs"
  by (simp add: map_update list_update_same_conv)

lemma turnFrame_update:
  assumes "findIndex P (initiativeOrder c) = Some i" and "cid x = cid (initiativeOrder c ! i)"
  shows "turnFrame c (c\<lparr>initiativeOrder := (initiativeOrder c)[i := x]\<rparr>)"
  using findIndex_Some_lt [OF assms(1)] assms(2) by (simp add: turnFrame_def map_cid_update)

lemma turnFrame_refl: "turnFrame c c"
  by (simp add: turnFrame_def)

lemma turnFrame_applyDamage:
  assumes "applyDamage c targetId amount = Inr res"
  shows "turnFrame c (dmg_combat res)"
proof -
  obtain i where i: "findIndex (\<lambda>x. cid x = targetId) (initiativeOrder c) = Some i"
    using assms by (auto simp: applyDamage_def split: option.splits)
  obtain r a t' where d: "depleteTempHp (max 0 amount) (tempHp (initiativeOrder c ! i)) = (r, a, t')"
    by (metis prod_cases3)
  show ?thesis
    using assms by (auto simp: applyDamage_def i d Let_def intro!: turnFrame_update [OF i])
qed

lemma turnFrame_applyHealing:
  assumes "applyHealing c targetId amount = Inr res"
  shows "turnFrame c (heal_combat res)"
proof -
  obtain i where i: "findIndex (\<lambda>x. cid x = targetId) (initiativeOrder c) = Some i"
    using assms by (auto simp: applyHealing_def split: option.splits)
  show ?thesis
    using assms by (auto simp: applyHealing_def i Let_def intro!: turnFrame_update [OF i])
qed

lemma turnFrame_addCondition:
  assumes "addCondition c targetId condition = Inr c'"
  shows "turnFrame c c'"
proof -
  obtain i where i: "findIndex (\<lambda>x. cid x = targetId) (initiativeOrder c) = Some i"
    using assms by (auto simp: addCondition_def split: option.splits)
  show ?thesis
    using assms
    by (auto simp: addCondition_def i Let_def turnFrame_refl split: option.splits if_splits
             intro!: turnFrame_update [OF i])
qed

lemma turnFrame_removeCondition:
  assumes "removeCondition c targetId conditionName = Inr c'"
  shows "turnFrame c c'"
proof -
  obtain i where i: "findIndex (\<lambda>x. cid x = targetId) (initiativeOrder c) = Some i"
    using assms by (auto simp: removeCondition_def split: option.splits)
  show ?thesis
    using assms by (auto simp: removeCondition_def i Let_def intro!: turnFrame_update [OF i])
qed

lemma turnFrame_resources:
  "turnFrame c (useAction c k)" "turnFrame c (useBonusAction c k)"
  "turnFrame c (useReaction c k)" "turnFrame c (useMovement c k amount)"
  "turnFrame c (flee c k)" "turnFrame c (addTempHp c k amount)"
  "turnFrame c (addEnvironmentalEffect c e)" "turnFrame c (removeEnvironmentalEffect c e)"
  by (auto simp: useAction_def useBonusAction_def useReaction_def useMovement_def flee_def
        addTempHp_def addEnvironmentalEffect_def removeEnvironmentalEffect_def Let_def
        turnFrame_refl split: option.splits intro!: turnFrame_update)
     (simp_all add: turnFrame_def)

lemma notSurprisedTurn_frame:
  assumes "turnFrame c c'" and "notSurprisedTurn c"
  shows "notSurprisedTurn c'"
proof -
  have len: "length (initiativeOrder c') = length (initiativeOrder c)"
    using assms(1) by (metis length_map turnFrame_def)
  have "currentTurnIndex c < length (initiativeOrder c) \<Longrightarrow>
      cid (initiativeOrder c' ! currentTurnIndex c) = cid (initiativeOrder c ! currentTurnIndex c)"
    using assms(1) len by (metis nth_map turnFrame_def)
  then show ?thesis
    using assms len
    by (auto simp: notSurprisedTurn_def getCurrentCombatant_def turnFrame_def
             split: if_splits)
qed

lemma notSurprisedTurn_nextTurn: "notSurprisedTurn (nextTurn c)"
proof (induction c rule: nextTurn.induct)
  case (1 combat)
  show ?case
  proof (cases "isActive combat")
    case False
    then show ?thesis
      by (simp add: nextTurn_inactive notSurprisedTurn_def getCurrentCombatant_def)
  next
    case act: True
    show ?thesis
    proof (cases "filter (\<lambda>x. status x = active) (initiativeOrder combat) = []")
      case True
      then show ?thesis
        using act by (simp add: nextTurn_none_active notSurprisedTurn_def getCurrentCombatant_def)
    next
      case False
      obtain s c' where a: "advanceTurn combat = (s, c')" by (metis surj_pair)
      have ne: "initiativeOrder combat \<noteq> []" using False by auto
      note P = advanceTurn_props [OF a ne]
      have len: "length (filter (\<lambda>c. status c = active) (initiativeOrder combat)) \<noteq> 0"
        using False by simp
      show ?thesis
      proof (cases s)
        case True
        have "notSurprisedTurn (nextTurn c')"
          using "1.IH" [OF _ len a [symmetric] True] act by simp
        then show ?thesis using nextTurn_step [OF act False a] True by simp
      next
        case ns: False
        have "nextTurn combat = c'" using nextTurn_step [OF act False a] ns by simp
        moreover have "notSurprisedTurn c'"
          using P ns by (auto simp: notSurprisedTurn_def getCurrentCombatant_def)
        ultimately show ?thesis by simp
      qed
    qed
  qed
qed

lemma round_nextTurn: "round c \<le> round (nextTurn c)"
proof (rule nextTurn_preserves [where I = "\<lambda>d. round c \<le> round d"])
  fix d s d'
  assume "advanceTurn d = (s, d')" "initiativeOrder d \<noteq> []" "round c \<le> round d"
  then show "round c \<le> round d'" using advanceTurn_props [of d s d'] by simp
qed simp_all

lemma applyOp_round:
  assumes "applyOp operation c = Inr c'"
  shows "round c \<le> round c'"
proof (cases operation)
  case NextTurn
  then show ?thesis using assms round_nextTurn by auto
next
  case ProcessEndOfRound
  then show ?thesis using assms by auto
next
  case (ApplyDamage targetId amount)
  then obtain res where "applyDamage c targetId amount = Inr res" "c' = dmg_combat res"
    using assms by (cases "applyDamage c targetId amount") auto
  then show ?thesis using turnFrame_applyDamage by (simp add: turnFrame_def)
next
  case (ApplyHealing targetId amount)
  then obtain res where "applyHealing c targetId amount = Inr res" "c' = heal_combat res"
    using assms by (cases "applyHealing c targetId amount") auto
  then show ?thesis using turnFrame_applyHealing by (simp add: turnFrame_def)
next
  case (AddCondition targetId condition)
  then show ?thesis using assms turnFrame_addCondition by (simp add: turnFrame_def)
next
  case (RemoveCondition targetId conditionName)
  then show ?thesis using assms turnFrame_removeCondition by (simp add: turnFrame_def)
next
  case EndCombat
  then show ?thesis using assms by (auto simp: endCombat_def Let_def)
qed (use assms turnFrame_resources [of c] in \<open>auto simp: turnFrame_def\<close>)

lemma applyOp_notSurprisedTurn:
  assumes "applyOp operation c = Inr c'" and "1 \<le> round c" and "notSurprisedTurn c"
  shows "notSurprisedTurn c'"
proof (cases operation)
  case NextTurn
  then show ?thesis using assms notSurprisedTurn_nextTurn by auto
next
  case ProcessEndOfRound
  then show ?thesis
    using assms by (auto simp: notSurprisedTurn_def split: option.splits)
next
  case (ApplyDamage targetId amount)
  then obtain res where "applyDamage c targetId amount = Inr res" "c' = dmg_combat res"
    using assms by (cases "applyDamage c targetId amount") auto
  then show ?thesis using turnFrame_applyDamage notSurprisedTurn_frame assms(3) by blast
next
  case (ApplyHealing targetId amount)
  then obtain res where "applyHealing c targetId amount = Inr res" "c' = heal_combat res"
    using assms by (cases "applyHealing c targetId amount") auto
  then show ?thesis using turnFrame_applyHealing notSurprisedTurn_frame assms(3) by blast
next
  case (AddCondition targetId condition)
  then have "addCondition c targetId condition = Inr c'" using assms(1) by simp
  from notSurprisedTurn_frame [OF turnFrame_addCondition [OF this] assms(3)]
  show ?thesis .
next
  case (RemoveCondition targetId conditionName)
  then have "removeCondition c targetId conditionName = Inr c'" using assms(1) by simp
  from notSurprisedTurn_frame [OF turnFrame_removeCondition [OF this] assms(3)]
  show ?thesis .
next
  case EndCombat
  then show ?thesis
    using assms by (auto simp: endCombat_def Let_def notSurprisedTurn_def getCurrentCombatant_def)
qed (use assms(1) notSurprisedTurn_frame [OF turnFrame_resources(1) assms(3)]
       notSurprisedTurn_frame [OF turnFrame_resources(2) assms(3)]
       notSurprisedTurn_frame [OF turnFrame_resources(3) assms(3)]
       notSurprisedTurn_frame [OF turnFrame_resources(4) assms(3)]
       notSurprisedTurn_frame [OF turnFrame_resources(5) assms(3)]
       notSurprisedTurn_frame [OF turnFrame_resources(6) assms(3)]
       notSurprisedTurn_frame [OF turnFrame_resources(7) assms(3)]
       notSurprisedTurn_frame [OF turnFrame_resources(8) assms(3)] in auto)

lemma runOps_round: "runOps ops c = Inr c' \<Longrightarrow> round c \<le> round c'"
proof (induction ops arbitrary: c)
  case Nil
  then show ?case by simp
next
  case (Cons operation ops)
  then obtain d where d: "applyOp operation c = Inr d" and r: "runOps ops d = Inr c'"
    by (auto split: sum.splits)
  from applyOp_round [OF d] Cons.IH [OF r] show ?case by simp
qed

lemma runOps_notSurprisedTurn:
  "runOps ops c = Inr c' \<Longrightarrow> 1 \<le> round c \<Longrightarrow> notSurprisedTurn c \<Longrightarrow> notSurprisedTurn c'"
proof (induction ops arbitrary: c)
  case Nil
  then show ?case by simp
next
  case (Cons operation ops)
  then obtain d where d: "applyOp operation c = Inr d" and r: "runOps ops d = Inr c'"
    by (auto split: sum.splits)
  have "1 \<le> round d" using applyOp_round [OF d] Cons.prems(2) by simp
  moreover have "notSurprisedTurn d"
    by (rule applyOp_notSurprisedTurn [OF d Cons.prems(2,3)])
  ultimately show ?case using Cons.IH [OF r] by simp
qed

lemma runOps_append:
  "runOps (xs @ ys) c = (case runOps xs c of Inl e \<Rightarrow> Inl e | Inr d \<Rightarrow> runOps ys d)"
  by (induction xs arbitrary: c) (auto split: sum.splits)

text \<open>
  C2 (as amended). In every combat reached from a combat \<^verbatim>\<open>startCombat\<close> returned by a
  sequence of operations in which \<^verbatim>\<open>nextTurn\<close> occurs at least once, while the round is 1,
  the combatant \<^verbatim>\<open>getCurrentCombatant\<close> reports is not in \<open>surprisedCombatantIds\<close>.
\<close>

theorem surprised_never_current_after_nextTurn:
  assumes "startCombat rng uuid characters monsters allyMonsters surprisedIds = Inr c0"
    and "runOps (before @ NextTurn # after) c0 = Inr c"
    and "round c = 1" and "getCurrentCombatant c = Some current"
  shows "cid current \<notin> set (surprisedCombatantIds c)"
proof -
  obtain d where d: "runOps before c0 = Inr d" and r: "runOps after (nextTurn d) = Inr c"
    using assms(2) by (auto simp: runOps_append split: sum.splits)
  have "1 \<le> round d" using runOps_round [OF d] startCombat_fields(1) [OF assms(1)] by simp
  then have "1 \<le> round (nextTurn d)" using round_nextTurn [of d] by simp
  then have "notSurprisedTurn c"
    using runOps_notSurprisedTurn [OF r] notSurprisedTurn_nextTurn by simp
  then show ?thesis using assms(3,4) by (simp add: notSurprisedTurn_def)
qed


lemma surprisedCombat_started:
  "startCombat zeroRng ''combat'' [mockCharacter] [mockMonster] [] [''hero'']
     = Inr surprisedCombat"
  by code_simp

lemma surprisedCombat_next:
  "round (nextTurn surprisedCombat) = 1"
  "map_option cid (getCurrentCombatant (nextTurn surprisedCombat)) = Some ''goblin_1''"
  "surprisedCombatantIds (nextTurn surprisedCombat) = [''hero'']"
  by code_simp+

theorem surprised_never_current_after_nextTurn_witness:
  "startCombat zeroRng ''combat'' [mockCharacter] [mockMonster] [] [''hero'']
     = Inr surprisedCombat
   \<and> runOps ([] @ NextTurn # []) surprisedCombat = Inr (nextTurn surprisedCombat)
   \<and> round (nextTurn surprisedCombat) = 1
   \<and> map_option cid (getCurrentCombatant (nextTurn surprisedCombat)) = Some ''goblin_1''
   \<and> ''goblin_1'' \<notin> set (surprisedCombatantIds (nextTurn surprisedCombat))"
proof -
  obtain current where c: "getCurrentCombatant (nextTurn surprisedCombat) = Some current"
    and i: "cid current = ''goblin_1''"
    using surprisedCombat_next(2) by auto
  have r: "runOps ([] @ NextTurn # []) surprisedCombat = Inr (nextTurn surprisedCombat)"
    by simp
  from surprised_never_current_after_nextTurn
         [OF surprisedCombat_started r surprisedCombat_next(1) c]
  show ?thesis
    using surprisedCombat_started r surprisedCombat_next i by simp
qed

text \<open>
  C2 as stated includes the combat \<^verbatim>\<open>startCombat\<close> itself returns. There the turn index
  is 0 whoever comes first: with the hero surprised and first in the order, the round is 1
  and the current combatant is the surprised hero.
\<close>

theorem startCombat_surprised_first_counterexample:
  "startCombat zeroRng ''combat'' [mockCharacter] [mockMonster] [] [''hero'']
     = Inr surprisedCombat
   \<and> round surprisedCombat = 1
   \<and> map_option cid (getCurrentCombatant surprisedCombat) = Some ''hero''
   \<and> ''hero'' \<in> set (surprisedCombatantIds surprisedCombat)"
  by code_simp

section \<open>The notation parser against the specification\<close>

lemma char_by_code: "(of_char c :: nat) = of_char d \<Longrightarrow> c = d"
  by simp

lemma nat_48_57:
  "48 \<le> (n::nat) \<Longrightarrow> n \<le> 57 \<Longrightarrow> n \<in> {48, 49, 50, 51, 52, 53, 54, 55, 56, 57}"
  by (simp only: insert_iff empty_iff) presburger

lemma isDecimalDigit_isDigit: "isDecimalDigit c = isDigit c"
proof
  assume "isDecimalDigit c"
  then show "isDigit c"
    by (auto simp: isDecimalDigit_def decimalDigits_def isDigit_def)
next
  assume "isDigit c"
  then have "(of_char c :: nat) \<in> {48, 49, 50, 51, 52, 53, 54, 55, 56, 57}"
    unfolding isDigit_def by (intro nat_48_57) simp_all
  then have "c \<in> set decimalDigits"
    unfolding decimalDigits_def by (auto intro: char_by_code)
  then show "isDecimalDigit c"
    by (simp add: isDecimalDigit_def)
qed

lemma digitValue_digitOf: "isDigit c \<Longrightarrow> digitValue c = digitOf c"
proof -
  assume "isDigit c"
  then have "c = CHR ''0'' \<or> c = CHR ''1'' \<or> c = CHR ''2'' \<or> c = CHR ''3'' \<or> c = CHR ''4''
      \<or> c = CHR ''5'' \<or> c = CHR ''6'' \<or> c = CHR ''7'' \<or> c = CHR ''8'' \<or> c = CHR ''9''"
    unfolding isDecimalDigit_isDigit [symmetric] isDecimalDigit_def decimalDigits_def by simp
  then show ?thesis
    by (elim disjE) (simp_all add: digitValue_def digitOf_def decimalDigits_def)
qed

lemma foldl_decimalValue:
  "list_all isDigit s \<Longrightarrow>
     foldl (\<lambda>acc c. 10 * acc + digitValue c) acc s = acc * 10 ^ length s + decimalValue s"
proof (induction s arbitrary: acc)
  case Nil
  then show ?case by simp
next
  case (Cons c cs)
  have "foldl (\<lambda>acc c. 10 * acc + digitValue c) acc (c # cs)
      = foldl (\<lambda>acc c. 10 * acc + digitValue c) (10 * acc + digitOf c) cs"
    using Cons.prems by (simp add: digitValue_digitOf)
  also have "\<dots> = (10 * acc + digitOf c) * 10 ^ length cs + decimalValue cs"
    using Cons.prems by (intro Cons.IH) simp
  also have "\<dots> = acc * 10 ^ length (c # cs) + decimalValue (c # cs)"
    by (simp add: algebra_simps)
  finally show ?case .
qed

lemma parseDigits_decimalValue: "list_all isDigit s \<Longrightarrow> parseDigits s = decimalValue s"
  using foldl_decimalValue [of s 0] by (simp add: parseDigits_def)

lemma digitOf_nonneg: "0 \<le> digitOf c"
  by (simp add: digitOf_def)

lemma decimalValue_nonneg: "0 \<le> decimalValue s"
  by (induction s) (simp_all add: digitOf_nonneg)

lemma nat_space_codes:
  "(n::nat) \<in> {9, 10, 11, 12, 13, 32, 160} \<Longrightarrow>
     n = 9 \<or> n = 10 \<or> n = 11 \<or> n = 12 \<or> n = 13 \<or> n = 32 \<or> n = 160"
  by simp

lemma isWhitespace_isSpace: "isWhitespace c = isSpace c"
proof
  assume "isWhitespace c"
  then have "c = CHR 0x09 \<or> c = CHR 0x0A \<or> c = CHR 0x0B \<or> c = CHR 0x0C \<or> c = CHR 0x0D
      \<or> c = CHR 0x20 \<or> c = CHR 0xA0"
    by (simp add: isWhitespace_def whitespaceChars_def)
  then show "isSpace c"
    by (elim disjE) (simp_all add: isSpace_def)
next
  assume "isSpace c"
  then have "(of_char c :: nat) = 9 \<or> (of_char c :: nat) = 10 \<or> (of_char c :: nat) = 11
      \<or> (of_char c :: nat) = 12 \<or> (of_char c :: nat) = 13 \<or> (of_char c :: nat) = 32
      \<or> (of_char c :: nat) = 160"
    unfolding isSpace_def by (rule nat_space_codes)
  then have "c = CHR 0x09 \<or> c = CHR 0x0A \<or> c = CHR 0x0B \<or> c = CHR 0x0C \<or> c = CHR 0x0D
      \<or> c = CHR 0x20 \<or> c = CHR 0xA0"
    by (elim disjE) (simp_all add: char_by_code)
  then show "isWhitespace c"
    by (simp add: isWhitespace_def whitespaceChars_def)
qed

text \<open>The code of the lowercased character.\<close>

lemma toLowerChar_code:
  "(of_char (toLowerChar x) :: nat) =
     (if (65 \<le> (of_char x :: nat) \<and> (of_char x :: nat) \<le> 90)
         \<or> (192 \<le> (of_char x :: nat) \<and> (of_char x :: nat) \<le> 222 \<and> (of_char x :: nat) \<noteq> 215)
      then of_char x + 32 else of_char x)"
proof -
  have "(of_char x :: nat) \<le> 222 \<Longrightarrow> ((of_char x :: nat) + 32) mod 256 = of_char x + 32"
    by simp
  then show ?thesis
    by (auto simp: toLowerChar_def Let_def of_char_of)
qed

lemma toLowerChar_eq_iff:
  "toLowerChar x = y \<longleftrightarrow>
     (if (65 \<le> (of_char x :: nat) \<and> (of_char x :: nat) \<le> 90)
         \<or> (192 \<le> (of_char x :: nat) \<and> (of_char x :: nat) \<le> 222 \<and> (of_char x :: nat) \<noteq> 215)
      then (of_char x :: nat) + 32 = of_char y else x = y)"
proof -
  have "toLowerChar x = y \<longleftrightarrow> (of_char (toLowerChar x) :: nat) = of_char y"
    by simp
  also have "\<dots> \<longleftrightarrow> (if (65 \<le> (of_char x :: nat) \<and> (of_char x :: nat) \<le> 90)
         \<or> (192 \<le> (of_char x :: nat) \<and> (of_char x :: nat) \<le> 222 \<and> (of_char x :: nat) \<noteq> 215)
      then (of_char x :: nat) + 32 = of_char y else (of_char x :: nat) = of_char y)"
    by (simp only: toLowerChar_code) (simp del: of_char_eq_iff)
  finally show ?thesis by simp
qed

lemma isSpace_toLowerChar: "isSpace (toLowerChar c) = isSpace c"
  unfolding isSpace_def toLowerChar_code by auto

lemma toLowerChar_plain:
  assumes "(of_char y :: nat) < 65"
  shows "toLowerChar x = y \<longleftrightarrow> x = y"
  using assms unfolding toLowerChar_eq_iff by auto

lemma toLowerChar_letter:
  assumes "97 \<le> (of_char y :: nat)" and "(of_char y :: nat) \<le> 122"
  shows "toLowerChar x = y \<longleftrightarrow> x = y \<or> (of_char x :: nat) + 32 = of_char y"
  using assms unfolding toLowerChar_eq_iff by auto

lemma notationChars_cases:
  assumes "y \<in> set notationChars"
  obtains (plain) "y \<in> set ''0123456789+-''" | (d) "y = CHR ''d''" | (k) "y = CHR ''k''"
    | (h) "y = CHR ''h''" | (l) "y = CHR ''l''"
proof -
  have "y = CHR ''0'' \<or> y = CHR ''1'' \<or> y = CHR ''2'' \<or> y = CHR ''3'' \<or> y = CHR ''4''
      \<or> y = CHR ''5'' \<or> y = CHR ''6'' \<or> y = CHR ''7'' \<or> y = CHR ''8'' \<or> y = CHR ''9''
      \<or> y = CHR ''d'' \<or> y = CHR ''k'' \<or> y = CHR ''h'' \<or> y = CHR ''l''
      \<or> y = CHR ''+'' \<or> y = CHR ''-''"
    using assms by (simp add: notationChars_def)
  then show thesis
    by (elim disjE) (simp_all add: that)
qed

lemma plain_code:
  assumes "y \<in> set ''0123456789+-''"
  shows "(of_char y :: nat) < 65" and "sameIgnoringCase x y \<longleftrightarrow> x = y"
proof -
  have y: "y = CHR ''0'' \<or> y = CHR ''1'' \<or> y = CHR ''2'' \<or> y = CHR ''3'' \<or> y = CHR ''4''
      \<or> y = CHR ''5'' \<or> y = CHR ''6'' \<or> y = CHR ''7'' \<or> y = CHR ''8'' \<or> y = CHR ''9''
      \<or> y = CHR ''+'' \<or> y = CHR ''-''"
    using assms by simp
  show "(of_char y :: nat) < 65"
    using y by (elim disjE) simp_all
  show "sameIgnoringCase x y \<longleftrightarrow> x = y"
    using y by (elim disjE) (simp_all add: sameIgnoringCase_def)
qed

lemma sameIgnoringCase_toLowerChar:
  assumes "y \<in> set notationChars"
  shows "sameIgnoringCase x y \<longleftrightarrow> toLowerChar x = y"
  using assms
proof (cases rule: notationChars_cases)
  case plain
  then have "toLowerChar x = y \<longleftrightarrow> x = y"
    by (intro toLowerChar_plain plain_code(1))
  moreover have "sameIgnoringCase x y \<longleftrightarrow> x = y"
    using plain by (rule plain_code(2))
  ultimately show ?thesis by simp
next
  case d
  have "toLowerChar x = CHR ''d'' \<longleftrightarrow> x = CHR ''d'' \<or> (of_char x :: nat) + 32 = of_char CHR ''d''"
    by (rule toLowerChar_letter) simp_all
  also have "(of_char x :: nat) + 32 = of_char CHR ''d'' \<longleftrightarrow> (of_char x :: nat) = of_char CHR ''D''"
    by auto
  also have "\<dots> \<longleftrightarrow> x = CHR ''D''" by (rule of_char_eq_iff)
  finally show ?thesis unfolding d by (auto simp: sameIgnoringCase_def)
next
  case k
  have "toLowerChar x = CHR ''k'' \<longleftrightarrow> x = CHR ''k'' \<or> (of_char x :: nat) + 32 = of_char CHR ''k''"
    by (rule toLowerChar_letter) simp_all
  also have "(of_char x :: nat) + 32 = of_char CHR ''k'' \<longleftrightarrow> (of_char x :: nat) = of_char CHR ''K''"
    by auto
  also have "\<dots> \<longleftrightarrow> x = CHR ''K''" by (rule of_char_eq_iff)
  finally show ?thesis unfolding k by (auto simp: sameIgnoringCase_def)
next
  case h
  have "toLowerChar x = CHR ''h'' \<longleftrightarrow> x = CHR ''h'' \<or> (of_char x :: nat) + 32 = of_char CHR ''h''"
    by (rule toLowerChar_letter) simp_all
  also have "(of_char x :: nat) + 32 = of_char CHR ''h'' \<longleftrightarrow> (of_char x :: nat) = of_char CHR ''H''"
    by auto
  also have "\<dots> \<longleftrightarrow> x = CHR ''H''" by (rule of_char_eq_iff)
  finally show ?thesis unfolding h by (auto simp: sameIgnoringCase_def)
next
  case l
  have "toLowerChar x = CHR ''l'' \<longleftrightarrow> x = CHR ''l'' \<or> (of_char x :: nat) + 32 = of_char CHR ''l''"
    by (rule toLowerChar_letter) simp_all
  also have "(of_char x :: nat) + 32 = of_char CHR ''l'' \<longleftrightarrow> (of_char x :: nat) = of_char CHR ''L''"
    by auto
  also have "\<dots> \<longleftrightarrow> x = CHR ''L''" by (rule of_char_eq_iff)
  finally show ?thesis unfolding l by (auto simp: sameIgnoringCase_def)
qed

lemma normalize_Cons:
  "normalize (c # cs) = (if isSpace c then normalize cs else toLowerChar c # normalize cs)"
  by (simp add: normalize_def toLowerCase_def isSpace_toLowerChar)

lemma readsAs_normalize:
  "list_all (\<lambda>c. c \<in> set notationChars) target \<Longrightarrow>
     readsAs s target \<longleftrightarrow> normalize s = target"
proof (induction s arbitrary: target)
  case Nil
  then show ?case by (auto simp: normalize_def toLowerCase_def)
next
  case (Cons c cs)
  show ?case
  proof (cases "isSpace c")
    case True
    then show ?thesis using Cons by (simp add: normalize_Cons isWhitespace_isSpace)
  next
    case False
    show ?thesis
    proof (cases target)
      case Nil
      then show ?thesis using False by (simp add: normalize_Cons isWhitespace_isSpace)
    next
      case (Cons t ts)
      have t: "t \<in> set notationChars" and ts: "list_all (\<lambda>c. c \<in> set notationChars) ts"
        using Cons.prems Cons by simp_all
      show ?thesis
        using False Cons.IH [OF ts]
        by (simp add: Cons normalize_Cons isWhitespace_isSpace
              sameIgnoringCase_toLowerChar [OF t])
    qed
  qed
qed

lemma digit_notationChar: "isDecimalDigit c \<Longrightarrow> c \<in> set notationChars"
  by (auto simp: isDecimalDigit_def decimalDigits_def notationChars_def)

lemma digits_notationChars:
  "list_all isDecimalDigit s \<Longrightarrow> list_all (\<lambda>c. c \<in> set notationChars) s"
  by (induction s) (simp_all add: digit_notationChar)

lemma notationText_chars:
  assumes "wellFormed cnt sds keep md"
  shows "list_all (\<lambda>c. c \<in> set notationChars) (notationText cnt sds keep md)"
proof -
  have c: "list_all (\<lambda>c. c \<in> set notationChars) cnt"
    and s: "list_all (\<lambda>c. c \<in> set notationChars) sds"
    using assms by (simp_all add: wellFormed_def isNumber_def digits_notationChars)
  have k: "list_all (\<lambda>c. c \<in> set notationChars) (keepText keep)"
    using assms
    by (cases keep rule: keepText.cases)
       (simp_all add: wellFormed_def isNumber_def digits_notationChars, simp_all add: notationChars_def)
  have m: "list_all (\<lambda>c. c \<in> set notationChars) (modifierText md)"
    using assms
    by (cases md rule: modifierText.cases)
       (simp_all add: wellFormed_def isNumber_def digits_notationChars, simp_all add: notationChars_def)
  have d: "CHR ''d'' \<in> set notationChars" by (simp add: notationChars_def)
  show ?thesis using c s k m d by (simp add: notationText_def)
qed

lemma spells_normalize:
  "spells notation cnt sds keep md \<longleftrightarrow>
     wellFormed cnt sds keep md \<and> normalize notation = notationText cnt sds keep md"
  using readsAs_normalize [OF notationText_chars] by (auto simp: spells_def)

lemma bitLength_nonpos: "n \<le> 0 \<Longrightarrow> bitLength n = 0"
  by (simp add: bitLength.simps)

lemma bitLength_pos: "0 < n \<Longrightarrow> bitLength n = Suc (bitLength (n div 2))"
  by (subst bitLength.simps) simp

lemma bitLength_bound: "n < 2 ^ k \<Longrightarrow> bitLength n \<le> k"
proof (induction k arbitrary: n)
  case 0
  then show ?case by (simp add: bitLength_nonpos)
next
  case (Suc k)
  show ?case
  proof (cases "n \<le> 0")
    case True
    then show ?thesis by (simp add: bitLength_nonpos)
  next
    case False
    have "n < 2 * 2 ^ k" using Suc.prems by simp
    then have "n div 2 < 2 ^ k" by linarith
    then have "bitLength (n div 2) \<le> k" by (rule Suc.IH)
    then show ?thesis using False by (simp add: bitLength_pos)
  qed
qed

lemma bitLength_above: "n < 2 ^ bitLength n"
proof (induction n rule: bitLength.induct)
  case (1 n)
  show ?case
  proof (cases "n \<le> 0")
    case True
    then show ?thesis by (simp add: bitLength_nonpos)
  next
    case False
    have "n div 2 < 2 ^ bitLength (n div 2)" using 1 False by simp
    then have "n < 2 * 2 ^ bitLength (n div 2)" by linarith
    then show ?thesis using False by (simp add: bitLength_pos)
  qed
qed

lemma bitLength_below: "0 < n \<Longrightarrow> 2 ^ bitLength n \<le> 2 * n"
proof (induction n rule: bitLength.induct)
  case (1 n)
  show ?case
  proof (cases "n div 2 \<le> 0")
    case True
    then have "n = 1" using 1(2) by linarith
    then show ?thesis by (simp add: bitLength_pos bitLength_nonpos)
  next
    case False
    have "2 ^ bitLength (n div 2) \<le> 2 * (n div 2)" using 1 False by simp
    then have "2 * 2 ^ bitLength (n div 2) \<le> 2 * n" by linarith
    then show ?thesis using 1(2) by (simp add: bitLength_pos)
  qed
qed

lemma nearestDouble_exact:
  assumes "\<bar>n\<bar> < 2 ^ 53"
  shows "nearestDouble n = Finite n"
proof -
  have e: "bitLength \<bar>n\<bar> - 53 = 0" using bitLength_bound [OF assms] by simp
  have "(2::int) ^ 53 < 2 ^ 1024" by (rule power_strict_increasing) simp_all
  then have b: "\<not> 2 ^ 1024 \<le> \<bar>n\<bar>" using assms by linarith
  show ?thesis
    unfolding nearestDouble_def Let_def e using b by auto
qed

lemma nearestDouble_large:
  assumes "2 ^ 53 \<le> n"
  shows "numberGreater (nearestDouble n) 100" and "\<not> numberLess (nearestDouble n) 1"
proof -
  define a where "a = \<bar>n\<bar>"
  define e where "e = bitLength a - 53"
  define q where "q = a div 2 ^ e"
  define sg where "sg = (if 2 * (a mod 2 ^ e) < 2 ^ e \<or> (2 * (a mod 2 ^ e) = 2 ^ e \<and> even q)
      then q else q + 1)"
  have "(0::int) < 2 ^ 53" by simp
  then have n: "\<not> n < 0" using assms by linarith
  have a: "2 ^ 53 \<le> a" using assms unfolding a_def by linarith
  have "(0::int) < 2 ^ 53" by simp
  then have a0: "0 < a" using a by linarith
  have h: "(2::int) ^ 53 < 2 ^ bitLength a" using a bitLength_above [of a] by linarith
  have "53 < bitLength a" by (rule power_less_imp_less_exp [OF _ h]) simp
  then have L: "bitLength a = Suc (e + 52)" unfolding e_def by simp
  have "2 * (2 ^ 52 * 2 ^ e) \<le> 2 * a"
    using bitLength_below [OF a0] unfolding L by (simp add: power_add mult.commute)
  then have "2 ^ 52 * 2 ^ e \<le> a" by simp
  then have "(2 ^ 52 * 2 ^ e) div 2 ^ e \<le> a div 2 ^ e" by (rule zdiv_mono1) simp
  then have q: "2 ^ 52 \<le> q" unfolding q_def by simp
  have "q \<le> sg" unfolding sg_def by simp
  then have s1: "2 ^ 52 \<le> sg" using q by linarith
  have "(0::int) < 2 ^ 52" by simp
  then have s0: "0 \<le> sg" using s1 by linarith
  have "sg * 1 \<le> sg * 2 ^ e" by (rule mult_left_mono [OF _ s0]) simp
  then have s2: "sg \<le> sg * 2 ^ e" by simp
  have m: "2 ^ 52 \<le> sg * 2 ^ e" by (rule order_trans [OF s1 s2])
  define mag where "mag = sg * 2 ^ e"
  have "(100::int) < 2 ^ 52" by simp
  then have big: "100 < mag" using m unfolding mag_def by linarith
  have nd: "nearestDouble n = (if 2 ^ 1024 \<le> mag then Infinity else Finite mag)"
    using n unfolding nearestDouble_def Let_def a_def [symmetric] e_def [symmetric]
      q_def [symmetric] sg_def [symmetric] mag_def [symmetric] by simp
  show "numberGreater (nearestDouble n) 100" using big unfolding nd by simp
  show "\<not> numberLess (nearestDouble n) 1" using big unfolding nd by simp
qed

lemma nearestDouble_rounds:
  assumes "nearestDouble n = Finite m"
  shows "\<bar>m - n\<bar> * 2 ^ 53 \<le> \<bar>n\<bar>"
    and "\<exists>s k. \<bar>m\<bar> = s * 2 ^ k \<and> 0 \<le> s \<and> s \<le> 2 ^ 53"
proof -
  define a where "a = \<bar>n\<bar>"
  define e where "e = bitLength a - 53"
  define p :: int where "p = 2 ^ e"
  define q where "q = a div p"
  define r where "r = a mod p"
  define sg where "sg = (if 2 * r < p \<or> (2 * r = p \<and> even q) then q else q + 1)"
  define mag where "mag = sg * p"
  have nd: "nearestDouble n = (if 2 ^ 1024 \<le> mag then (if n < 0 then NegInfinity else Infinity)
      else Finite (if n < 0 then - mag else mag))"
    unfolding nearestDouble_def Let_def a_def [symmetric] e_def [symmetric] p_def [symmetric]
      q_def [symmetric] r_def [symmetric] sg_def [symmetric] mag_def [symmetric] by (rule refl)
  have m: "m = (if n < 0 then - mag else mag)"
    using assms unfolding nd by (simp split: if_splits)
  have a0: "0 \<le> a" by (simp add: a_def)
  have p0: "0 < p" by (simp add: p_def)
  have q0: "0 \<le> q" unfolding q_def using a0 p0 by (simp add: pos_imp_zdiv_nonneg_iff)
  have r0: "0 \<le> r" and rp: "r < p" unfolding r_def using p0 by simp_all
  have aqr: "a = q * p + r" unfolding q_def r_def by simp
  have sg: "sg = q \<and> 2 * r \<le> p \<or> sg = q + 1 \<and> p \<le> 2 * r"
    unfolding sg_def by auto
  have diff: "2 * \<bar>mag - a\<bar> \<le> p"
    using sg r0 rp unfolding mag_def aqr by (auto simp: algebra_simps)
  have sg0: "0 \<le> sg" using sg q0 by auto
  have mag0: "0 \<le> mag" unfolding mag_def using sg0 p0 by simp
  have dist: "\<bar>m - n\<bar> = \<bar>mag - a\<bar>" unfolding m a_def by auto
  have absm: "\<bar>m\<bar> = mag" unfolding m using mag0 by auto
  have above: "a < 2 ^ bitLength a" by (rule bitLength_above)
  show "\<bar>m - n\<bar> * 2 ^ 53 \<le> \<bar>n\<bar>"
  proof (cases "e = 0")
    case True
    then have "p = 1" by (simp add: p_def)
    then have "mag = a" using diff by presburger
    then show ?thesis unfolding dist using a0 by (simp add: a_def)
  next
    case False
    then have L: "bitLength a = Suc (e + 52)" unfolding e_def by simp
    have "0 < a" using L bitLength_nonpos [of a] by (cases "a \<le> 0") simp_all
    then have "2 ^ bitLength a \<le> 2 * a" by (rule bitLength_below)
    then have low: "2 ^ 52 * p \<le> a" unfolding L p_def by (simp add: power_add mult.commute)
    have "\<bar>mag - a\<bar> * 2 ^ 53 = (2 * \<bar>mag - a\<bar>) * 2 ^ 52" by simp
    also have "\<dots> \<le> p * 2 ^ 52" using diff by (intro mult_right_mono) simp_all
    also have "\<dots> \<le> a" using low by (simp add: mult.commute)
    finally show ?thesis unfolding dist a_def .
  qed
  have "a < 2 ^ 53 * p"
  proof (cases "e = 0")
    case True
    then have "bitLength a \<le> 53" unfolding e_def by simp
    then have "(2::int) ^ bitLength a \<le> 2 ^ 53" by (intro power_increasing) simp_all
    then show ?thesis using above True by (simp add: p_def)
  next
    case False
    then have "bitLength a = 53 + e" unfolding e_def by simp
    then show ?thesis using above by (simp add: p_def power_add)
  qed
  then have "q * p + r < 2 ^ 53 * p" unfolding aqr .
  then have "q * p < 2 ^ 53 * p" using r0 by linarith
  then have "q < 2 ^ 53" using p0 by (simp add: mult_less_cancel_right)
  then have "sg \<le> 2 ^ 53" using sg by auto
  then have "\<bar>m\<bar> = sg * 2 ^ e \<and> 0 \<le> sg \<and> sg \<le> 2 ^ 53"
    using absm sg0 by (simp add: mag_def p_def)
  then show "\<exists>s k. \<bar>m\<bar> = s * 2 ^ k \<and> 0 \<le> s \<and> s \<le> 2 ^ 53" by blast
qed

lemma range_check:
  assumes "0 \<le> n"
  shows "numberLess (nearestDouble n) 1 \<or> numberGreater (nearestDouble n) 100
     \<longleftrightarrow> \<not> (1 \<le> n \<and> n \<le> 100)"
proof (cases "n < 2 ^ 53")
  case True
  then have "nearestDouble n = Finite n" using assms by (intro nearestDouble_exact) simp
  then show ?thesis by auto
next
  case False
  then have b: "2 ^ 53 \<le> n" by simp
  have "(100::int) < 2 ^ 53" by simp
  then have "\<not> n \<le> 100" using b by linarith
  then show ?thesis using nearestDouble_large(1) [OF b] by simp
qed

lemma in_range_exact: "1 \<le> n \<Longrightarrow> n \<le> 100 \<Longrightarrow> nearestDouble n = Finite n"
  by (rule nearestDouble_exact) simp

lemma digit_not_space: "isDigit c \<Longrightarrow> \<not> isSpace c"
  by (auto simp: isDigit_def isSpace_def)

lemma digit_not_sign: "isDigit c \<Longrightarrow> c \<noteq> CHR ''+'' \<and> c \<noteq> CHR ''-''"
  by (auto simp: isDigit_def)

lemma takeWhile_digits: "list_all isDigit s \<Longrightarrow> takeWhile isDigit s = s"
  by (simp add: list_all_iff)

lemma parseInt_digits:
  assumes "list_all isDigit s" and "s \<noteq> []"
  shows "parseInt s = nearestDouble (decimalValue s)"
proof -
  obtain c cs where s: "s = c # cs" using assms(2) by (cases s) auto
  have c: "isDigit c" using assms(1) s by simp
  have d: "dropWhile isSpace s = s" using digit_not_space [OF c] s by simp
  have neg: "(case s of [] \<Rightarrow> False | c # rest \<Rightarrow> c = CHR ''-'') = False"
    using digit_not_sign [OF c] s by simp
  have uns: "(case s of [] \<Rightarrow> []
      | c # rest \<Rightarrow> if c = CHR ''+'' \<or> c = CHR ''-'' then rest else s) = s"
    using digit_not_sign [OF c] s by simp
  show ?thesis
    unfolding parseInt_def Let_def d neg uns takeWhile_digits [OF assms(1)]
    using assms by (simp add: parseDigits_decimalValue)
qed

lemma parseInt_plus:
  assumes "list_all isDigit s" and "s \<noteq> []"
  shows "parseInt (CHR ''+'' # s) = nearestDouble (decimalValue s)"
proof -
  have "\<not> isSpace CHR ''+''" by (simp add: isSpace_def)
  then show ?thesis
    using assms by (simp add: parseInt_def Let_def takeWhile_digits parseDigits_decimalValue)
qed

lemma parseInt_minus:
  assumes "list_all isDigit s" and "s \<noteq> []"
  shows "parseInt (CHR ''-'' # s) = nearestDouble (- decimalValue s)"
proof -
  have "\<not> isSpace CHR ''-''" by (simp add: isSpace_def)
  then show ?thesis
    using assms by (simp add: parseInt_def Let_def takeWhile_digits parseDigits_decimalValue)
qed

lemma isDecimalDigit_eq: "isDecimalDigit = isDigit"
  by (rule ext) (rule isDecimalDigit_isDigit)

lemma isNumber_digits: "isNumber s \<longleftrightarrow> s \<noteq> [] \<and> list_all isDigit s"
  by (simp add: isNumber_def isDecimalDigit_eq)

lemma not_digit [simp]:
  "\<not> isDigit CHR ''d''" "\<not> isDigit CHR ''k''" "\<not> isDigit CHR ''+''" "\<not> isDigit CHR ''-''"
  by (simp_all add: isDigit_def)

lemma digits_then_stop:
  assumes "list_all isDigit ds" and "stopsDigits rest"
  shows "takeWhile isDigit (ds @ rest) = ds" "dropWhile isDigit (ds @ rest) = rest"
proof -
  have r: "takeWhile isDigit rest = []" "dropWhile isDigit rest = rest"
    using assms(2) by (cases rest; simp add: stopsDigits_def)+
  have d: "\<And>x. x \<in> set ds \<Longrightarrow> isDigit x" using assms(1) by (simp add: list_all_iff)
  show "takeWhile isDigit (ds @ rest) = ds" using d r by (simp add: takeWhile_append2)
  show "dropWhile isDigit (ds @ rest) = rest" using d r by (simp add: dropWhile_append2)
qed

lemma digits_alone:
  assumes "list_all isDigit ds"
  shows "takeWhile isDigit ds = ds" "dropWhile isDigit ds = []"
  using digits_then_stop [OF assms, of "[]"] by (simp_all add: stopsDigits_def)

lemma stops_modifierText: "stopsDigits (modifierText md)"
  by (cases md rule: modifierText.cases) (simp_all add: stopsDigits_def)

lemma stops_keep_modifier: "stopsDigits (keepText keep @ modifierText md)"
proof (cases keep rule: keepText.cases)
  case 1
  then show ?thesis by (simp add: stops_modifierText)
qed (simp_all add: stopsDigits_def)

lemma matchModifier_text:
  assumes "modifierWellFormed md"
  shows "matchModifier (modifierText md) = (modifierGroup md, [])"
  using assms
  by (cases md rule: modifierText.cases)
     (simp_all add: matchModifier_def isNumber_digits digits_alone)

lemma matchKeep_text:
  assumes "keepWellFormed keep" and "modifierWellFormed md"
  shows "matchKeep (keepText keep @ modifierText md)
      = (keepHighGroup keep, keepLowGroup keep, modifierText md)"
proof (cases keep rule: keepText.cases)
  case 1
  then show ?thesis
    using assms(2)
    by (cases md rule: modifierText.cases)
       (auto simp: matchKeep_def isNumber_digits split: list.splits)
next
  case (2 n)
  then show ?thesis
    using assms(1) digits_then_stop [OF _ stops_modifierText, of n md]
    by (simp add: matchKeep_def isNumber_digits)
next
  case (3 n)
  then show ?thesis
    using assms(1) digits_then_stop [OF _ stops_modifierText, of n md]
    by (simp add: matchKeep_def isNumber_digits)
qed

lemma matchDice_spells:
  assumes "wellFormed cnt sds keep md"
  shows "matchDice (notationText cnt sds keep md) = Some (groupsOf cnt sds keep md)"
proof -
  define t where "t = notationText cnt sds keep md"
  have c: "list_all isDigit cnt" and s: "list_all isDigit sds" "sds \<noteq> []"
    and k: "keepWellFormed keep" and m: "modifierWellFormed md"
    using assms by (simp_all add: wellFormed_def isNumber_digits isDecimalDigit_eq)
  have t: "t = cnt @ CHR ''d'' # sds @ keepText keep @ modifierText md"
    by (simp add: t_def notationText_def)
  have 1: "takeWhile isDigit t = cnt"
    "dropWhile isDigit t = CHR ''d'' # sds @ keepText keep @ modifierText md"
    unfolding t by (rule digits_then_stop [OF c]; simp add: stopsDigits_def)+
  have 2: "takeWhile isDigit (sds @ keepText keep @ modifierText md) = sds"
    "dropWhile isDigit (sds @ keepText keep @ modifierText md) = keepText keep @ modifierText md"
    by (rule digits_then_stop [OF s(1) stops_keep_modifier])+
  have "matchDice t = Some (groupsOf cnt sds keep md)"
    by (simp add: matchDice_def 1 2 matchKeep_text [OF k m] matchModifier_text [OF m] s(2)
          groupsOf_def Let_def)
  then show ?thesis by (simp only: t_def)
qed

lemma matchModifier_end:
  assumes "matchModifier s = (g, [])"
  shows "\<exists>md. modifierWellFormed md \<and> s = modifierText md"
proof (cases s)
  case Nil
  have "modifierWellFormed None \<and> s = modifierText None" using Nil by simp
  then show ?thesis by blast
next
  case (Cons c rest)
  show ?thesis
  proof (cases "(c = CHR ''+'' \<or> c = CHR ''-'') \<and> takeWhile isDigit rest \<noteq> []")
    case True
    then have "dropWhile isDigit rest = []" using assms Cons by (simp add: matchModifier_def)
    then have all: "list_all isDigit rest" by (simp add: list_all_iff)
    have ne: "rest \<noteq> []" using True by auto
    show ?thesis
    proof (cases "c = CHR ''+''")
      case p: True
      have "modifierWellFormed (Some (Plus rest)) \<and> s = modifierText (Some (Plus rest))"
        using all ne Cons p by (simp add: isNumber_digits)
      then show ?thesis by blast
    next
      case False
      then have "c = CHR ''-''" using True by simp
      then have "modifierWellFormed (Some (Minus rest)) \<and> s = modifierText (Some (Minus rest))"
        using all ne Cons by (simp add: isNumber_digits)
      then show ?thesis by blast
    qed
  next
    case False
    then have "s = []" using assms Cons by (auto simp: matchModifier_def split: if_splits)
    then show ?thesis using Cons by simp
  qed
qed

lemma matchKeep_parts:
  assumes "matchKeep s = (gh, gl, rest)"
  shows "\<exists>keep. keepWellFormed keep \<and> s = keepText keep @ rest"
proof -
  have digits: "\<And>r. list_all isDigit (takeWhile isDigit r)"
    by (simp add: list_all_iff) (meson set_takeWhileD)
  have noGroup: "\<exists>keep. keepWellFormed keep \<and> s = keepText keep @ rest"
    if "matchKeep s = (None, None, s)"
  proof -
    have "keepWellFormed None \<and> s = keepText None @ rest" using that assms by simp
    then show ?thesis by blast
  qed
  consider
    (high) r where "s = CHR ''k'' # CHR ''h'' # r" "takeWhile isDigit r \<noteq> []"
  | (low) r where "s = CHR ''k'' # CHR ''l'' # r" "takeWhile isDigit r \<noteq> []"
  | (none) "matchKeep s = (None, None, s)"
  proof (cases s)
    case Nil
    then show ?thesis using that(3) by (simp add: matchKeep_def)
  next
    case (Cons k t)
    show ?thesis
    proof (cases t)
      case Nil
      then show ?thesis using that(3) Cons by (simp add: matchKeep_def)
    next
      case (Cons h r)
      show ?thesis
      proof (cases "k = CHR ''k'' \<and> h = CHR ''h'' \<and> takeWhile isDigit r \<noteq> []")
        case True
        then show ?thesis using that(1) [of r] Cons \<open>s = k # t\<close> by simp
      next
        case nh: False
        show ?thesis
        proof (cases "k = CHR ''k'' \<and> h = CHR ''l'' \<and> takeWhile isDigit r \<noteq> []")
          case True
          then show ?thesis using that(2) [of r] Cons \<open>s = k # t\<close> by simp
        next
          case False
          then show ?thesis
            using that(3) nh Cons \<open>s = k # t\<close> by (simp add: matchKeep_def)
        qed
      qed
    qed
  qed
  then show ?thesis
  proof cases
    case high
    then have "rest = dropWhile isDigit r" using assms by (simp add: matchKeep_def)
    then have "keepWellFormed (Some (KeepHighest (takeWhile isDigit r)))
        \<and> s = keepText (Some (KeepHighest (takeWhile isDigit r))) @ rest"
      using high digits by (simp add: isNumber_digits)
    then show ?thesis by blast
  next
    case low
    then have "rest = dropWhile isDigit r" using assms by (simp add: matchKeep_def)
    then have "keepWellFormed (Some (KeepLowest (takeWhile isDigit r)))
        \<and> s = keepText (Some (KeepLowest (takeWhile isDigit r))) @ rest"
      using low digits by (simp add: isNumber_digits)
    then show ?thesis by blast
  next
    case none
    then show ?thesis by (rule noGroup)
  qed
qed

lemma matchDice_Some_spells:
  assumes "matchDice t = Some m"
  shows "\<exists>cnt sds keep md. wellFormed cnt sds keep md \<and> t = notationText cnt sds keep md"
proof -
  let ?cnt = "takeWhile isDigit t"
  have digits: "\<And>r. list_all isDigit (takeWhile isDigit r)"
    by (simp add: list_all_iff) (meson set_takeWhileD)
  obtain afterD where a: "dropWhile isDigit t = CHR ''d'' # afterD"
    using assms by (auto simp: matchDice_def Let_def split: list.splits if_splits)
  let ?sds = "takeWhile isDigit afterD"
  obtain gh gl afterKeep where k: "matchKeep (dropWhile isDigit afterD) = (gh, gl, afterKeep)"
    by (metis prod_cases3)
  obtain gm afterModifier where mm: "matchModifier afterKeep = (gm, afterModifier)"
    by (metis surj_pair)
  have ne: "?sds \<noteq> []" and e: "afterModifier = []"
    using assms by (auto simp: matchDice_def a k mm Let_def split: if_splits)
  from matchKeep_parts [OF k] obtain keep where
    keep: "keepWellFormed keep" "dropWhile isDigit afterD = keepText keep @ afterKeep" by blast
  from matchModifier_end [OF mm [unfolded e]] obtain md where
    md: "modifierWellFormed md" "afterKeep = modifierText md" by blast
  have "t = ?cnt @ dropWhile isDigit t" by simp
  also have "\<dots> = ?cnt @ CHR ''d'' # (?sds @ dropWhile isDigit afterD)"
    by (simp only: a takeWhile_dropWhile_id)
  finally have "t = notationText ?cnt ?sds keep md"
    using keep(2) md(2) by (simp add: notationText_def)
  moreover have "wellFormed ?cnt ?sds keep md"
    using digits ne keep(1) md(1) by (simp add: wellFormed_def isNumber_digits isDecimalDigit_eq)
  ultimately show ?thesis by blast
qed

lemma parseInt_keepHigh:
  "keepWellFormed keep \<Longrightarrow>
     map_option parseInt (keepHighGroup keep) = map_option nearestDouble (keepHighestWritten keep)"
  by (cases keep rule: keepText.cases) (simp_all add: isNumber_digits parseInt_digits)

lemma parseInt_keepLow:
  "keepWellFormed keep \<Longrightarrow>
     map_option parseInt (keepLowGroup keep) = map_option nearestDouble (keepLowestWritten keep)"
  by (cases keep rule: keepText.cases) (simp_all add: isNumber_digits parseInt_digits)

lemma parseInt_modifier:
  "modifierWellFormed md \<Longrightarrow>
     (case modifierGroup md of Some s \<Rightarrow> parseInt s | None \<Rightarrow> Finite 0)
       = nearestDouble (modifierWritten md)"
  by (cases md rule: modifierText.cases)
     (simp_all add: isNumber_digits parseInt_plus parseInt_minus nearestDouble_exact)

lemma parseDiceNotation_spelt:
  assumes "spells notation cnt sds keep md"
  shows "parseDiceNotation notation = asDoubles (specOutcome cnt sds keep md)"
proof -
  have wf: "wellFormed cnt sds keep md"
    and t: "normalize notation = notationText cnt sds keep md"
    using assms by (simp_all add: spells_normalize)
  have c: "list_all isDigit cnt" and s: "list_all isDigit sds" "sds \<noteq> []"
    and k: "keepWellFormed keep" and m: "modifierWellFormed md"
    using wf by (simp_all add: wellFormed_def isNumber_digits isDecimalDigit_eq)
  define count where "count = (if cnt \<noteq> [] then parseInt cnt else Finite 1)"
  define sides where "sides = parseInt sds"
  have count: "count = nearestDouble (countWritten cnt)"
    using c by (simp add: count_def countWritten_def parseInt_digits nearestDouble_exact)
  have sides: "sides = nearestDouble (decimalValue sds)"
    using s by (simp add: sides_def parseInt_digits)
  have cw: "0 \<le> countWritten cnt" by (simp add: countWritten_def decimalValue_nonneg)
  have countCheck: "numberLess count 1 \<or> numberGreater count 100
      \<longleftrightarrow> \<not> (1 \<le> countWritten cnt \<and> countWritten cnt \<le> 100)"
    unfolding count by (rule range_check [OF cw])
  have sidesCheck: "numberLess sides 1 \<or> numberGreater sides 100
      \<longleftrightarrow> \<not> (1 \<le> decimalValue sds \<and> decimalValue sds \<le> 100)"
    unfolding sides by (rule range_check [OF decimalValue_nonneg])
  have code: "parseDiceNotation notation =
      (if numberLess count 1 \<or> numberGreater count 100 then Inl (InvalidDiceCount count)
       else if numberLess sides 1 \<or> numberGreater sides 100 then Inl (InvalidDiceSides sides)
       else Inr \<lparr>dice_count = count, dice_sides = sides,
                 dice_modifier = nearestDouble (modifierWritten md),
                 keepHighest = map_option nearestDouble (keepHighestWritten keep),
                 keepLowest = map_option nearestDouble (keepLowestWritten keep)\<rparr>)"
    unfolding parseDiceNotation_def t matchDice_spells [OF wf]
    by (simp add: groupsOf_def Let_def count_def sides_def parseInt_keepHigh [OF k]
          parseInt_keepLow [OF k] parseInt_modifier [OF m])
  show ?thesis
  proof (cases "1 \<le> countWritten cnt \<and> countWritten cnt \<le> 100")
    case False
    then show ?thesis
      unfolding code using countCheck by (simp add: specOutcome_def count)
  next
    case inCount: True
    then have cf: "count = Finite (countWritten cnt)"
      unfolding count by (intro in_range_exact) simp_all
    show ?thesis
    proof (cases "1 \<le> decimalValue sds \<and> decimalValue sds \<le> 100")
      case False
      then show ?thesis
        unfolding code using countCheck sidesCheck inCount by (simp add: specOutcome_def sides)
    next
      case True
      then have sf: "sides = Finite (decimalValue sds)"
        unfolding sides by (intro in_range_exact) simp_all
      show ?thesis
        unfolding code using countCheck sidesCheck inCount True
        by (simp add: specOutcome_def cf sf)
    qed
  qed
qed

lemma parseDiceNotation_not_spelt:
  assumes "\<not> (\<exists>cnt sds keep md. spells notation cnt sds keep md)"
  shows "parseDiceNotation notation = Inl (InvalidNotation notation)"
proof (cases "matchDice (normalize notation)")
  case None
  then show ?thesis by (simp add: parseDiceNotation_def)
next
  case (Some m)
  from matchDice_Some_spells [OF Some] assms show ?thesis
    unfolding spells_normalize by blast
qed

lemma keep_at_most_one: "keepHighestWritten keep = None \<or> keepLowestWritten keep = None"
  by (cases keep rule: keepText.cases) simp_all

lemma asDoubles_Inr:
  "asDoubles (specOutcome cnt sds keep md) = Inr r \<Longrightarrow>
     1 \<le> countWritten cnt \<and> countWritten cnt \<le> 100
     \<and> 1 \<le> decimalValue sds \<and> decimalValue sds \<le> 100
     \<and> r = \<lparr>dice_count = Finite (countWritten cnt), dice_sides = Finite (decimalValue sds),
             dice_modifier = nearestDouble (modifierWritten md),
             keepHighest = map_option nearestDouble (keepHighestWritten keep),
             keepLowest = map_option nearestDouble (keepLowestWritten keep)\<rparr>"
  by (auto simp: specOutcome_def split: if_splits)

text \<open>
  C9 (as amended). Read case-insensitively and whitespace-insensitively: if the notation is
  spelt as \<^verbatim>\<open>[count]d<sides>[kh<N>|kl<N>][+|-modifier]\<close>, \<^verbatim>\<open>parseDiceNotation\<close> gives what
  the specification says for that spelling, with the modifier and the keep number as the
  JavaScript numbers nearest to what was written (the count defaulting to 1 and the
  modifier to 0; \<open>InvalidDiceCount\<close> for a count outside [1,100], otherwise
  \<open>InvalidDiceSides\<close> for sides outside [1,100], otherwise the count, sides, modifier and
  keep clause); if it is not spelt that way, it fails with \<open>InvalidNotation\<close>. So it
  succeeds exactly on the notations spelt that way with count and sides in [1,100], and a
  result never has both \<open>keepHighest\<close> and \<open>keepLowest\<close>. A number below \<open>2 ^ 53\<close> in
  magnitude is returned as it was written; any finite number returned for a written \<open>n\<close>
  is a double, \<open>s * 2 ^ k\<close> in magnitude with \<open>s\<close> at most \<open>2 ^ 53\<close>, and differs from \<open>n\<close> by
  at most \<open>\<bar>n\<bar> / 2 ^ 53\<close>.
\<close>

theorem parseDiceNotation_refines_spec:
  "(\<forall>cnt sds keep md. spells notation cnt sds keep md \<longrightarrow>
       parseDiceNotation notation = asDoubles (specOutcome cnt sds keep md))
   \<and> ((\<nexists>cnt sds keep md. spells notation cnt sds keep md) \<longrightarrow>
       parseDiceNotation notation = Inl (InvalidNotation notation))
   \<and> ((\<exists>r. parseDiceNotation notation = Inr r) \<longleftrightarrow>
       (\<exists>cnt sds keep md. spells notation cnt sds keep md
          \<and> 1 \<le> countWritten cnt \<and> countWritten cnt \<le> 100
          \<and> 1 \<le> decimalValue sds \<and> decimalValue sds \<le> 100))
   \<and> (\<forall>r. parseDiceNotation notation = Inr r \<longrightarrow> keepHighest r = None \<or> keepLowest r = None)
   \<and> (\<forall>n. \<bar>n\<bar> < 2 ^ 53 \<longrightarrow> nearestDouble n = Finite n)
   \<and> (\<forall>n m. nearestDouble n = Finite m \<longrightarrow>
         \<bar>m - n\<bar> * 2 ^ 53 \<le> \<bar>n\<bar> \<and> (\<exists>s k. \<bar>m\<bar> = s * 2 ^ k \<and> 0 \<le> s \<and> s \<le> 2 ^ 53))"
proof (intro conjI allI impI)
  fix cnt sds keep md
  assume "spells notation cnt sds keep md"
  then show "parseDiceNotation notation = asDoubles (specOutcome cnt sds keep md)"
    by (rule parseDiceNotation_spelt)
next
  assume "\<nexists>cnt sds keep md. spells notation cnt sds keep md"
  then show "parseDiceNotation notation = Inl (InvalidNotation notation)"
    by (rule parseDiceNotation_not_spelt)
next
  show "(\<exists>r. parseDiceNotation notation = Inr r) \<longleftrightarrow>
       (\<exists>cnt sds keep md. spells notation cnt sds keep md
          \<and> 1 \<le> countWritten cnt \<and> countWritten cnt \<le> 100
          \<and> 1 \<le> decimalValue sds \<and> decimalValue sds \<le> 100)"
  proof
    assume "\<exists>r. parseDiceNotation notation = Inr r"
    then obtain r where r: "parseDiceNotation notation = Inr r" ..
    have "\<exists>cnt sds keep md. spells notation cnt sds keep md"
      using r parseDiceNotation_not_spelt [of "notation"] by auto
    then obtain cnt sds keep md where sp: "spells notation cnt sds keep md"
      by blast
    have "asDoubles (specOutcome cnt sds keep md) = Inr r"
      using parseDiceNotation_spelt [OF sp] r by simp
    then have "1 \<le> countWritten cnt \<and> countWritten cnt \<le> 100
          \<and> 1 \<le> decimalValue sds \<and> decimalValue sds \<le> 100"
      using asDoubles_Inr by blast
    with sp show "\<exists>cnt sds keep md. spells notation cnt sds keep md
          \<and> 1 \<le> countWritten cnt \<and> countWritten cnt \<le> 100
          \<and> 1 \<le> decimalValue sds \<and> decimalValue sds \<le> 100"
      by blast
  next
    assume "\<exists>cnt sds keep md. spells notation cnt sds keep md
          \<and> 1 \<le> countWritten cnt \<and> countWritten cnt \<le> 100
          \<and> 1 \<le> decimalValue sds \<and> decimalValue sds \<le> 100"
    then obtain cnt sds keep md where sp: "spells notation cnt sds keep md"
      and rg: "1 \<le> countWritten cnt" "countWritten cnt \<le> 100"
        "1 \<le> decimalValue sds" "decimalValue sds \<le> 100"
      by blast
    have "\<exists>r. asDoubles (specOutcome cnt sds keep md) = Inr r"
      using rg by (simp add: specOutcome_def)
    then show "\<exists>r. parseDiceNotation notation = Inr r"
      using parseDiceNotation_spelt [OF sp] by simp
  qed
next
  fix r
  assume r: "parseDiceNotation notation = Inr r"
  have "\<exists>cnt sds keep md. spells notation cnt sds keep md"
    using r parseDiceNotation_not_spelt [of "notation"] by auto
  then obtain cnt sds keep md where sp: "spells notation cnt sds keep md"
    by blast
  have "asDoubles (specOutcome cnt sds keep md) = Inr r"
    using parseDiceNotation_spelt [OF sp] r by simp
  then have "r = \<lparr>dice_count = Finite (countWritten cnt), dice_sides = Finite (decimalValue sds),
             dice_modifier = nearestDouble (modifierWritten md),
             keepHighest = map_option nearestDouble (keepHighestWritten keep),
             keepLowest = map_option nearestDouble (keepLowestWritten keep)\<rparr>"
    using asDoubles_Inr by blast
  then show "keepHighest r = None \<or> keepLowest r = None"
    using keep_at_most_one [of keep] by auto
next
  fix n :: int
  assume "\<bar>n\<bar> < 2 ^ 53"
  then show "nearestDouble n = Finite n" by (rule nearestDouble_exact)
next
  fix n m
  assume "nearestDouble n = Finite m"
  then show "\<bar>m - n\<bar> * 2 ^ 53 \<le> \<bar>n\<bar>" by (rule nearestDouble_rounds(1))
next
  fix n m
  assume "nearestDouble n = Finite m"
  then show "\<exists>s k. \<bar>m\<bar> = s * 2 ^ k \<and> 0 \<le> s \<and> s \<le> 2 ^ 53" by (rule nearestDouble_rounds(2))
qed

lemma spells_examples:
  "spells ''4D6 kh3 + 2'' ''4'' ''6'' (Some (KeepHighest ''3'')) (Some (Plus ''2''))"
  "spells ''D20 - 18014398509481987'' [] ''20'' None (Some (Minus ''18014398509481987''))"
  by code_simp+

lemma specOutcome_examples:
  "asDoubles (specOutcome ''4'' ''6'' (Some (KeepHighest ''3'')) (Some (Plus ''2'')))
     = Inr \<lparr>dice_count = Finite 4, dice_sides = Finite 6, dice_modifier = Finite 2,
            keepHighest = Some (Finite 3), keepLowest = None\<rparr>"
  "asDoubles (specOutcome [] ''20'' None (Some (Minus ''18014398509481987'')))
     = Inr \<lparr>dice_count = Finite 1, dice_sides = Finite 20,
            dice_modifier = Finite (- 18014398509481988),
            keepHighest = None, keepLowest = None\<rparr>"
  by code_simp+

theorem parseDiceNotation_refines_spec_witness:
  "spells ''4D6 kh3 + 2'' ''4'' ''6'' (Some (KeepHighest ''3'')) (Some (Plus ''2''))
   \<and> parseDiceNotation ''4D6 kh3 + 2''
       = Inr \<lparr>dice_count = Finite 4, dice_sides = Finite 6, dice_modifier = Finite 2,
              keepHighest = Some (Finite 3), keepLowest = None\<rparr>
   \<and> spells ''D20 - 18014398509481987'' [] ''20'' None (Some (Minus ''18014398509481987''))
   \<and> parseDiceNotation ''D20 - 18014398509481987''
       = Inr \<lparr>dice_count = Finite 1, dice_sides = Finite 20,
              dice_modifier = Finite (- 18014398509481988),
              keepHighest = None, keepLowest = None\<rparr>"
  using parseDiceNotation_refines_spec [of "''4D6 kh3 + 2''"]
    parseDiceNotation_refines_spec [of "''D20 - 18014398509481987''"]
    spells_examples specOutcome_examples
  by metis

text \<open>
  C9 as stated has the modifier that was written returned. The notation
  \<^verbatim>\<open>1d6+9007199254740993\<close> is spelt with count 1, six sides and the modifier
  9007199254740993, which is \<open>2 ^ 53 + 1\<close>; the modifier returned is 9007199254740992.
\<close>

theorem parseDiceNotation_refines_spec_counterexample:
  "spells ''1d6+9007199254740993'' ''1'' ''6'' None (Some (Plus ''9007199254740993''))
   \<and> modifierWritten (Some (Plus ''9007199254740993'')) = 9007199254740993
   \<and> parseDiceNotation ''1d6+9007199254740993''
       = Inr \<lparr>dice_count = Finite 1, dice_sides = Finite 6,
              dice_modifier = Finite 9007199254740992,
              keepHighest = None, keepLowest = None\<rparr>
   \<and> parseDiceNotation ''1d6+9007199254740993''
       \<noteq> exactly (specOutcome ''1'' ''6'' None (Some (Plus ''9007199254740993'')))"
  by code_simp

lemma parseDiceNotation_examples:
  "parseDiceNotation ''d20'' = Inr \<lparr>dice_count = Finite 1, dice_sides = Finite 20,
      dice_modifier = Finite 0, keepHighest = None, keepLowest = None\<rparr>"
  "parseDiceNotation ''2d20kl1-1'' = Inr \<lparr>dice_count = Finite 2, dice_sides = Finite 20,
      dice_modifier = Finite (- 1), keepHighest = None, keepLowest = Some (Finite 1)\<rparr>"
  "parseDiceNotation ''0d6'' = Inl (InvalidDiceCount (Finite 0))"
  "parseDiceNotation ''101d0'' = Inl (InvalidDiceCount (Finite 101))"
  "parseDiceNotation ''1d101'' = Inl (InvalidDiceSides (Finite 101))"
  "parseDiceNotation ''2d6kh'' = Inl (InvalidNotation ''2d6kh'')"
  "parseDiceNotation ''two dice'' = Inl (InvalidNotation ''two dice'')"
  by code_simp+

lemma nearestDouble_examples:
  "nearestDouble 9007199254740993 = Finite 9007199254740992"
  "nearestDouble 9007199254740995 = Finite 9007199254740996"
  "nearestDouble (- 9007199254740993) = Finite (- 9007199254740992)"
  "nearestDouble 10000000000000000000000001 = Finite 10000000000000000905969664"
  "nearestDouble (10 ^ 400) = Infinity"
  "nearestDouble (- (10 ^ 400)) = NegInfinity"
  by code_simp+

lemma parseInt_examples:
  "parseInt ''12'' = Finite 12"
  "parseInt ''-3'' = Finite (- 3)"
  "parseInt '' +7x'' = Finite 7"
  "parseInt ''+'' = NaN"
  "parseInt [] = NaN"
  by code_simp+

end
